theory Spec2Isabelle
  imports Complex_Main
begin

section \<open>JavaScript values and the object store\<close>

text \<open>
  The program is one TypeScript file, \<^verbatim>\<open>src/DynamicForm.tsx\<close>. Its helper
  \<^verbatim>\<open>updateNested\<close> copies arrays and objects with spread syntax and then assigns
  into the copies, so the model keeps objects in an explicit store: a value is a
  primitive or a reference into the store, and every spread allocates a new cell.

  A number is an IEEE double. No arithmetic is done on numbers by the program; the
  model keeps the cases that JavaScript's truthiness distinguishes. The store has no
  bound: running out of memory is not modelled.
\<close>

datatype jsnum = NaN | PosInf | NegInf | NegZero | Fin rat

text \<open>
  \<open>VNative\<close> stands for an object of the runtime itself that the program can only
  meet by reading an inherited property: \<^verbatim>\<open>Object.prototype\<close> and its methods.
  None of them has an enumerable own property. A string is the list of its code
  units, each of them below 256; the characters the program looks for (the dot, the
  brackets, the digits) are among these.
\<close>

datatype val =
    VUndef
  | VNull
  | VBool bool
  | VNum jsnum
  | VStr string
  | VRef nat
  | VNative string

text \<open>
  An array cell holds its elements (\<open>None\<close> is a hole) and the properties that were
  assigned under names that are not array indices, in creation order. A plain object
  holds its own properties in key order and its prototype link.
\<close>

datatype cell =
    Arr "val option list" "(string \<times> val) list"
  | Obj "(string \<times> val) list" val

type_synonym heap = "cell list"

text \<open>
  \<open>TypeError\<close> is the exception of the language. \<open>OutsideModel\<close> marks the
  operations whose JavaScript meaning this theory does not spell out (a dangling
  reference, a property read on a boxed primitive, a prototype chain longer than one
  link); the theorems below show that the program never reaches them.
\<close>

datatype exn = TypeError | OutsideModel

definition objproto :: val where
  "objproto = VNative ''Object.prototype''"

definition objproto_methods :: "string list" where
  "objproto_methods =
     [''constructor'', ''__defineGetter__'', ''__defineSetter__'', ''hasOwnProperty'',
      ''__lookupGetter__'', ''__lookupSetter__'', ''isPrototypeOf'',
      ''propertyIsEnumerable'', ''toString'', ''valueOf'', ''toLocaleString'']"

definition cell_at :: "heap \<Rightarrow> nat \<Rightarrow> cell option" where
  "cell_at h a = (if a < length h then Some (h ! a) else None)"

text \<open>\<^verbatim>\<open>typeof v\<close>. Every cell of the store is an array or a plain object.\<close>

definition typeof :: "val \<Rightarrow> string" where
  "typeof v =
     (case v of
        VUndef \<Rightarrow> ''undefined''
      | VNull \<Rightarrow> ''object''
      | VBool _ \<Rightarrow> ''boolean''
      | VNum _ \<Rightarrow> ''number''
      | VStr _ \<Rightarrow> ''string''
      | VRef _ \<Rightarrow> ''object''
      | VNative n \<Rightarrow> (if VNative n = objproto then ''object'' else ''function''))"

text \<open>\<^verbatim>\<open>Array.isArray(v)\<close>\<close>

definition isArray :: "heap \<Rightarrow> val \<Rightarrow> bool" where
  "isArray h v =
     (case v of
        VRef a \<Rightarrow> (case cell_at h a of Some (Arr _ _) \<Rightarrow> True | _ \<Rightarrow> False)
      | _ \<Rightarrow> False)"

text \<open>The truthiness that \<^verbatim>\<open>if (v)\<close> and \<^verbatim>\<open>v && w\<close> and \<^verbatim>\<open>v || w\<close> test.\<close>

definition truthy_num :: "jsnum \<Rightarrow> bool" where
  "truthy_num n = (n \<noteq> NaN \<and> n \<noteq> NegZero \<and> n \<noteq> Fin 0)"

definition truthy :: "val \<Rightarrow> bool" where
  "truthy v =
     (case v of
        VUndef \<Rightarrow> False
      | VNull \<Rightarrow> False
      | VBool b \<Rightarrow> b
      | VNum n \<Rightarrow> truthy_num n
      | VStr s \<Rightarrow> s \<noteq> []
      | VRef _ \<Rightarrow> True
      | VNative _ \<Rightarrow> True)"

subsection \<open>Strings: decimal digits, \<^verbatim>\<open>split\<close>, \<^verbatim>\<open>replace\<close>, \<^verbatim>\<open>parseInt\<close>\<close>

definition digit_char :: "nat \<Rightarrow> char" where
  "digit_char d = ''0123456789'' ! d"

fun dec :: "nat \<Rightarrow> string" where
  "dec n = (if n < 10 then [digit_char n] else dec (n div 10) @ [digit_char (n mod 10)])"

declare dec.simps [simp del]

text \<open>
  \<^verbatim>\<open>p.split(/\.|\[/)\<close>: the pieces of \<open>p\<close> between the occurrences of a dot or an
  opening bracket. The result is never empty: a string without separators is its own
  single piece.
\<close>

fun split_path :: "string \<Rightarrow> string list" where
  "split_path [] = [[]]"
| "split_path (c # cs) =
     (if c = CHR ''.'' \<or> c = CHR ''[''
      then [] # split_path cs
      else (case split_path cs of
              t # ts \<Rightarrow> (c # t) # ts
            | [] \<Rightarrow> [[c]]))"

text \<open>\<^verbatim>\<open>s.replace("]", "")\<close> removes the first closing bracket only.\<close>

definition strip_bracket :: "string \<Rightarrow> string" where
  "strip_bracket s = remove1 (CHR '']'') s"

text \<open>
  \<^verbatim>\<open>parseInt(s)\<close> with no radix: leading white space, a sign, an optional
  \<^verbatim>\<open>0x\<close>, then the longest run of digits. The result is \<open>PNaN\<close> or a sign and a
  magnitude (the sign is kept because the language has a negative zero).
\<close>

datatype pint = PNaN | PInt bool nat

definition is_ws :: "char \<Rightarrow> bool" where
  "is_ws c = (c \<in> {CHR 0x09, CHR 0x0A, CHR 0x0B, CHR 0x0C, CHR 0x0D, CHR 0x20, CHR 0xA0})"

definition digit_val :: "char \<Rightarrow> nat option" where
  "digit_val c =
     (let n = of_char c :: nat in
      if 48 \<le> n \<and> n \<le> 57 then Some (n - 48)
      else if 97 \<le> n \<and> n \<le> 102 then Some (n - 87)
      else if 65 \<le> n \<and> n \<le> 70 then Some (n - 55)
      else None)"

definition is_digit :: "nat \<Rightarrow> char \<Rightarrow> bool" where
  "is_digit radix c = (case digit_val c of Some d \<Rightarrow> d < radix | None \<Rightarrow> False)"

definition digits_value :: "nat \<Rightarrow> string \<Rightarrow> nat" where
  "digits_value radix z = foldl (\<lambda>acc c. acc * radix + the (digit_val c)) 0 z"

definition parseInt :: "string \<Rightarrow> pint" where
  "parseInt s =
     (let s1 = dropWhile is_ws s;
          neg = (case s1 of c # _ \<Rightarrow> c = CHR ''-'' | [] \<Rightarrow> False);
          s2 = (case s1 of c # r \<Rightarrow> if c = CHR ''-'' \<or> c = CHR ''+'' then r else s1 | [] \<Rightarrow> []);
          hex = (case s2 of a # b # _ \<Rightarrow> a = CHR ''0'' \<and> (b = CHR ''x'' \<or> b = CHR ''X'') | _ \<Rightarrow> False);
          radix = (if hex then 16 else 10);
          s3 = (if hex then drop 2 s2 else s2);
          z = takeWhile (is_digit radix) s3
      in if z = [] then PNaN else PInt neg (digits_value radix z))"

text \<open>
  A number used as a property key is turned into a string. On an array the string is
  an index when it is the decimal form of an integer below \<open>2^32 - 1\<close>; any other
  key names an ordinary property. Up to \<open>2^53\<close> the integer is a double and its name
  is its decimal form. Beyond that the runtime rounds the integer to a double (and
  may approximate a literal of more than 20 digits) before printing it: that printing
  is left as the parameter \<open>bk\<close> of the model (it never yields the name of a
  built-in member of an array), and every theorem holds for all \<open>bk\<close>.
\<close>

datatype numkey = Index nat | Named string

definition key_of :: "(int \<Rightarrow> string) \<Rightarrow> pint \<Rightarrow> numkey" where
  "key_of bk n =
     (case n of
        PNaN \<Rightarrow> Named ''NaN''
      | PInt neg m \<Rightarrow>
          if m = 0 then Index 0
          else if \<not> neg \<and> m < 2 ^ 32 - 1 then Index m
          else if m \<le> 2 ^ 53 then Named ((if neg then ''-'' else '''') @ dec m)
          else Named (bk (if neg then - int m else int m)))"

subsection \<open>Own properties of a plain object\<close>

text \<open>
  The own keys of an object are listed with the array indices first, in ascending
  order, and then the other names in creation order. \<open>index_of\<close> recognises an array
  index: the canonical decimal form of an integer below \<open>2^32 - 1\<close>.
\<close>

definition index_of :: "string \<Rightarrow> nat option" where
  "index_of s =
     (if s \<noteq> [] \<and> (\<forall>c \<in> set s. is_digit 10 c) \<and> (s = ''0'' \<or> hd s \<noteq> CHR ''0'')
         \<and> digits_value 10 s < 2 ^ 32 - 1
      then Some (digits_value 10 s) else None)"

fun insert_index :: "nat \<Rightarrow> string \<times> val \<Rightarrow> (string \<times> val) list \<Rightarrow> (string \<times> val) list" where
  "insert_index i kv [] = [kv]"
| "insert_index i kv (p # ps) =
     (case index_of (fst p) of
        Some j \<Rightarrow> if j < i then p # insert_index i kv ps else kv # p # ps
      | None \<Rightarrow> kv # p # ps)"

definition insert_prop :: "string \<Rightarrow> val \<Rightarrow> (string \<times> val) list \<Rightarrow> (string \<times> val) list" where
  "insert_prop k v ps =
     (case index_of k of Some i \<Rightarrow> insert_index i (k, v) ps | None \<Rightarrow> ps @ [(k, v)])"

definition update_own :: "string \<Rightarrow> val \<Rightarrow> (string \<times> val) list \<Rightarrow> (string \<times> val) list" where
  "update_own k v ps = map (\<lambda>p. if fst p = k then (k, v) else p) ps"

subsection \<open>Spread\<close>

definition bindE :: "exn + 'a \<Rightarrow> ('a \<Rightarrow> exn + 'b) \<Rightarrow> exn + 'b" where
  "bindE m f = (case m of Inl e \<Rightarrow> Inl e | Inr x \<Rightarrow> f x)"

definition index_props :: "val option list \<Rightarrow> (string \<times> val) list" where
  "index_props es =
     List.map_filter (\<lambda>(i, e). map_option (\<lambda>v. (dec i, v)) e) (enumerate 0 es)"

text \<open>
  The properties that \<^verbatim>\<open>{ ...v }\<close> copies: nothing for \<^verbatim>\<open>undefined\<close>,
  \<^verbatim>\<open>null\<close>, a number, a boolean or a native object; the code units of a string under
  their positions; the elements of an array that are not holes under their indices,
  followed by its named properties; the own properties of a plain object.
\<close>

definition own_enumerable :: "heap \<Rightarrow> val \<Rightarrow> exn + (string \<times> val) list" where
  "own_enumerable h v =
     (case v of
        VRef a \<Rightarrow>
          (case cell_at h a of
             None \<Rightarrow> Inl OutsideModel
           | Some (Obj ps _) \<Rightarrow> Inr ps
           | Some (Arr es ps) \<Rightarrow> Inr (index_props es @ ps))
      | VStr s \<Rightarrow> Inr (map (\<lambda>(i, c). (dec i, VStr [c])) (enumerate 0 s))
      | _ \<Rightarrow> Inr [])"

text \<open>\<^verbatim>\<open>{ ...v }\<close>: a new plain object, at the next free address.\<close>

definition spread_obj :: "heap \<Rightarrow> val \<Rightarrow> exn + (val \<times> heap)" where
  "spread_obj h v =
     bindE (own_enumerable h v) (\<lambda>ps. Inr (VRef (length h), h @ [Obj ps objproto]))"

text \<open>
  \<^verbatim>\<open>[ ...v ]\<close>: a new array of what iterating \<open>v\<close> yields. A hole is read as
  \<^verbatim>\<open>undefined\<close>, the named properties of an array are not copied, and a value that
  is not iterable raises.
\<close>

definition spread_arr :: "heap \<Rightarrow> val \<Rightarrow> exn + (val \<times> heap)" where
  "spread_arr h v =
     (case v of
        VRef a \<Rightarrow>
          (case cell_at h a of
             None \<Rightarrow> Inl OutsideModel
           | Some (Obj _ _) \<Rightarrow> Inl TypeError
           | Some (Arr es _) \<Rightarrow>
               Inr (VRef (length h),
                    h @ [Arr (map (\<lambda>e. Some (case e of None \<Rightarrow> VUndef | Some x \<Rightarrow> x)) es) []]))
      | VStr s \<Rightarrow> Inr (VRef (length h), h @ [Arr (map (\<lambda>c. Some (VStr [c])) s) []])
      | _ \<Rightarrow> Inl TypeError)"

subsection \<open>Reading and writing a property\<close>

text \<open>
  \<^verbatim>\<open>a[n]\<close> for a number \<open>n\<close> (the program indexes arrays with the result of
  \<^verbatim>\<open>parseInt\<close> only). An array has no inherited property under the name of a number,
  so what is not an own property reads as \<^verbatim>\<open>undefined\<close>.
\<close>

definition get_num :: "heap \<Rightarrow> val \<Rightarrow> numkey \<Rightarrow> exn + val" where
  "get_num h r k =
     (case r of
        VRef a \<Rightarrow>
          (case cell_at h a of
             Some (Arr es ps) \<Rightarrow>
               Inr (case k of
                      Index i \<Rightarrow>
                        (if i < length es
                         then (case es ! i of Some x \<Rightarrow> x | None \<Rightarrow> VUndef)
                         else VUndef)
                    | Named s \<Rightarrow> (case map_of ps s of Some x \<Rightarrow> x | None \<Rightarrow> VUndef))
           | _ \<Rightarrow> Inl OutsideModel)
      | VUndef \<Rightarrow> Inl TypeError
      | VNull \<Rightarrow> Inl TypeError
      | _ \<Rightarrow> Inl OutsideModel)"

text \<open>
  \<^verbatim>\<open>a[n] = x\<close>. Writing at an index past the end grows the array and leaves holes in
  between; a key that is not an index creates or updates a named property.
\<close>

definition arr_assign :: "numkey \<Rightarrow> val \<Rightarrow> val option list \<Rightarrow> (string \<times> val) list \<Rightarrow> cell" where
  "arr_assign k x es ps =
     (case k of
        Index i \<Rightarrow>
          Arr (if i < length es then es[i := Some x]
               else es @ replicate (i - length es) None @ [Some x]) ps
      | Named s \<Rightarrow>
          Arr es (case map_of ps s of
                    Some _ \<Rightarrow> update_own s x ps
                  | None \<Rightarrow> ps @ [(s, x)]))"

definition set_num :: "heap \<Rightarrow> val \<Rightarrow> numkey \<Rightarrow> val \<Rightarrow> exn + heap" where
  "set_num h r k x =
     (case r of
        VRef a \<Rightarrow>
          (case cell_at h a of
             Some (Arr es ps) \<Rightarrow> Inr (h[a := arr_assign k x es ps])
           | _ \<Rightarrow> Inl OutsideModel)
      | VUndef \<Rightarrow> Inl TypeError
      | VNull \<Rightarrow> Inl TypeError
      | _ \<Rightarrow> Inl OutsideModel)"

text \<open>
  \<open>plain_link h p\<close>: \<open>p\<close> is a plain object without an own \<^verbatim>\<open>__proto__\<close> whose
  prototype is \<^verbatim>\<open>Object.prototype\<close>, so an object that has \<open>p\<close> as its prototype
  still inherits the \<^verbatim>\<open>__proto__\<close> accessor.
\<close>

definition plain_link :: "heap \<Rightarrow> val \<Rightarrow> bool" where
  "plain_link h p =
     (case p of
        VRef b \<Rightarrow>
          (case cell_at h b of
             Some (Obj ps pr) \<Rightarrow> map_of ps ''__proto__'' = None \<and> pr = objproto
           | _ \<Rightarrow> False)
      | _ \<Rightarrow> False)"

text \<open>
  \<^verbatim>\<open>o[k]\<close> for a string \<open>k\<close> on a plain object. A key that is not an own property is
  looked up in the prototype: \<^verbatim>\<open>Object.prototype\<close> answers \<^verbatim>\<open>__proto__\<close> with the
  prototype of the receiver and the names of its methods with those functions.
\<close>

definition get_str :: "heap \<Rightarrow> val \<Rightarrow> string \<Rightarrow> exn + val" where
  "get_str h r k =
     (case r of
        VRef a \<Rightarrow>
          (case cell_at h a of
             Some (Obj ps pr) \<Rightarrow>
               (case map_of ps k of
                  Some x \<Rightarrow> Inr x
                | None \<Rightarrow>
                    if pr = objproto then
                      Inr (if k = ''__proto__'' then pr
                           else if k \<in> set objproto_methods then VNative k
                           else VUndef)
                    else if pr = VNull then Inr VUndef
                    else if k = ''__proto__'' \<and> plain_link h pr then Inr pr
                    else Inl OutsideModel)
           | _ \<Rightarrow> Inl OutsideModel)
      | VUndef \<Rightarrow> Inl TypeError
      | VNull \<Rightarrow> Inl TypeError
      | _ \<Rightarrow> Inl OutsideModel)"

text \<open>
  The prototype chain that starts at \<open>p\<close> passes through the object at address \<open>a\<close>
  (followed for at most \<open>n\<close> links; a chain has no more links than the store has
  cells).
\<close>

fun chain_reaches :: "nat \<Rightarrow> heap \<Rightarrow> val \<Rightarrow> nat \<Rightarrow> bool" where
  "chain_reaches 0 h p a = False"
| "chain_reaches (Suc n) h p a =
     (case p of
        VRef b \<Rightarrow>
          b = a \<or> (case cell_at h b of Some (Obj _ pr) \<Rightarrow> chain_reaches n h pr a | _ \<Rightarrow> False)
      | _ \<Rightarrow> False)"

text \<open>
  \<^verbatim>\<open>o[k] = x\<close> for a string \<open>k\<close> on a plain object. An own property is overwritten.
  Otherwise, on an object that inherits from \<^verbatim>\<open>Object.prototype\<close>, the key
  \<^verbatim>\<open>__proto__\<close> runs the inherited setter: it replaces the prototype when \<open>x\<close> is an
  object or \<^verbatim>\<open>null\<close> (raising if that closes a cycle) and does nothing for any other
  \<open>x\<close>; no own property is created. Every other key becomes a new own property.
\<close>

definition set_str :: "heap \<Rightarrow> val \<Rightarrow> string \<Rightarrow> val \<Rightarrow> exn + heap" where
  "set_str h r k x =
     (case r of
        VRef a \<Rightarrow>
          (case cell_at h a of
             Some (Obj ps pr) \<Rightarrow>
               (case map_of ps k of
                  Some _ \<Rightarrow> Inr (h[a := Obj (update_own k x ps) pr])
                | None \<Rightarrow>
                    if pr = objproto then
                      (if k = ''__proto__'' then
                         (case x of
                            VRef _ \<Rightarrow>
                              if chain_reaches (length h) h x a then Inl TypeError
                              else Inr (h[a := Obj ps x])
                          | VNative _ \<Rightarrow> Inr (h[a := Obj ps x])
                          | VNull \<Rightarrow> Inr (h[a := Obj ps x])
                          | _ \<Rightarrow> Inr h)
                       else Inr (h[a := Obj (insert_prop k x ps) pr]))
                    else if pr = VNull then Inr (h[a := Obj (insert_prop k x ps) pr])
                    else Inl OutsideModel)
           | _ \<Rightarrow> Inl OutsideModel)
      | VUndef \<Rightarrow> Inl TypeError
      | VNull \<Rightarrow> Inl TypeError
      | _ \<Rightarrow> Inl OutsideModel)"

section \<open>\<^verbatim>\<open>updateNested\<close>\<close>

text \<open>
  One round of the loop of \<^verbatim>\<open>updateNested\<close> (lines 159 to 168), for the path piece
  \<open>t\<close>: copy \<open>current\<close>, replace the slot under the key by a spread copy of what it
  holds, and continue in that copy.
\<close>

definition step :: "(int \<Rightarrow> string) \<Rightarrow> string \<Rightarrow> val \<Rightarrow> heap \<Rightarrow> exn + (val \<times> heap)" where
  "step bk t current h =
     (let key = strip_bracket t in
      if isArray h current then
        bindE (spread_arr h current) (\<lambda>(c1, h1).
        bindE (get_num h1 c1 (key_of bk (parseInt key))) (\<lambda>old.
        bindE (spread_obj h1 old) (\<lambda>(x, h2).
        bindE (set_num h2 c1 (key_of bk (parseInt key)) x) (\<lambda>h3.
        bindE (get_num h3 c1 (key_of bk (parseInt key))) (\<lambda>v. Inr (v, h3))))))
      else
        bindE (spread_obj h current) (\<lambda>(c1, h1).
        bindE (get_str h1 c1 key) (\<lambda>old.
        bindE (spread_obj h1 old) (\<lambda>(x, h2).
        bindE (set_str h2 c1 key x) (\<lambda>h3.
        bindE (get_str h3 c1 key) (\<lambda>v. Inr (v, h3)))))))"

text \<open>The loop over all pieces but the last.\<close>

fun walk :: "(int \<Rightarrow> string) \<Rightarrow> string list \<Rightarrow> val \<Rightarrow> heap \<Rightarrow> exn + (val \<times> heap)" where
  "walk bk [] current h = Inr (current, h)"
| "walk bk (t # ts) current h = bindE (step bk t current h) (\<lambda>(c, h'). walk bk ts c h')"

text \<open>Lines 170 to 179: the write of the new value under the last key, into a copy.\<close>

definition finish :: "(int \<Rightarrow> string) \<Rightarrow> string \<Rightarrow> val \<Rightarrow> val \<Rightarrow> heap \<Rightarrow> exn + (val \<times> heap)" where
  "finish bk lastKey current v h =
     (if isArray h current then
        bindE (spread_arr h current) (\<lambda>(arr, h1).
        bindE (set_num h1 arr (key_of bk (parseInt lastKey)) v) (\<lambda>h2. Inr (arr, h2)))
      else
        bindE (spread_obj h current) (\<lambda>(objCopy, h1).
        bindE (set_str h1 objCopy lastKey v) (\<lambda>h2. Inr (objCopy, h2))))"

definition updateNested ::
  "(int \<Rightarrow> string) \<Rightarrow> val \<Rightarrow> string \<Rightarrow> val \<Rightarrow> heap \<Rightarrow> exn + (val \<times> heap)" where
  "updateNested bk obj p v h =
     (if typeof obj \<noteq> ''object'' \<or> obj = VNull then Inr (v, h)
      else
        let paths = split_path p in
        bindE (walk bk (butlast paths) obj h) (\<lambda>(current, h1).
          finish bk (strip_bracket (last paths)) current v h1))"

section \<open>The form state and its handlers\<close>

text \<open>
  The three state cells of \<^verbatim>\<open>JsonFormGenerator\<close> (\<^verbatim>\<open>null\<close> is \<open>VNull\<close> for
  \<open>formData\<close> and \<open>None\<close> for \<open>error\<close>), the object store, and the lines written to
  the console.
\<close>

record form_state =
  jsonString :: string
  formData :: val
  error :: "string option"
  store :: heap
  console :: "string list"

text \<open>
  \<^verbatim>\<open>JSON.parse\<close>, \<^verbatim>\<open>JSON.stringify\<close> and \<^verbatim>\<open>parseFloat\<close> belong to the runtime
  and are parameters of the handlers that call them. The parser either throws, with a
  message, or returns the parsed value and the store that holds it.
\<close>

type_synonym json_parse = "string \<Rightarrow> heap \<Rightarrow> string + (val \<times> heap)"

type_synonym json_stringify = "heap \<Rightarrow> val \<Rightarrow> string"

definition handleParseJson :: "json_parse \<Rightarrow> form_state \<Rightarrow> form_state" where
  "handleParseJson parse st =
     (case parse (jsonString st) (store st) of
        Inr (parsed, h) \<Rightarrow> st\<lparr>formData := parsed, error := None, store := h\<rparr>
      | Inl msg \<Rightarrow> st\<lparr>error := Some (''Invalid JSON: '' @ msg), formData := VNull\<rparr>)"

definition handleFormChange ::
  "(int \<Rightarrow> string) \<Rightarrow> val \<Rightarrow> string \<Rightarrow> form_state \<Rightarrow> exn + form_state" where
  "handleFormChange bk newValue path st =
     (if truthy (formData st) then
        bindE (updateNested bk (formData st) path newValue (store st))
          (\<lambda>(r, h). Inr (st\<lparr>formData := r, store := h\<rparr>))
      else Inr st)"

definition handleJsonOutput :: "json_stringify \<Rightarrow> form_state \<Rightarrow> form_state" where
  "handleJsonOutput stringify st =
     (if truthy (formData st)
      then st\<lparr>console := console st @ [stringify (store st) (formData st)]\<rparr>
      else st)"


text \<open>
  What \<^verbatim>\<open>JsonFormGenerator\<close> returns below the input area. The alert is
  \<^verbatim>\<open>error && ...\<close>. The preview is \<^verbatim>\<open>formData && ...\<close>: a
  \<^verbatim>\<open>RenderForm\<close> element for the whole value at the path \<^verbatim>\<open>root\<close>, with the
  output button, when \<open>formData\<close> is truthy, and otherwise the falsy value itself, for
  which nothing but the digits of a number is displayed.
\<close>

definition alert :: "form_state \<Rightarrow> string option" where
  "alert st = (case error st of None \<Rightarrow> None | Some e \<Rightarrow> if e = [] then None else Some e)"

datatype form_slot = Preview val string | Falsy val

definition preview :: "form_state \<Rightarrow> form_slot" where
  "preview st = (if truthy (formData st) then Preview (formData st) ''root'' else Falsy (formData st))"

section \<open>\<^verbatim>\<open>RenderForm\<close>\<close>

text \<open>
  The element that one call of \<^verbatim>\<open>RenderForm\<close> returns: a labelled control for a
  scalar, or a container whose children are \<^verbatim>\<open>RenderForm\<close> elements again, each
  given by its \<^verbatim>\<open>value\<close> and \<^verbatim>\<open>path\<close> properties (the children of a list also
  carry their index, those of an accordion their key).
\<close>

datatype element =
    TextField string string
  | NumberField string jsnum
  | CheckBox string bool
  | ListGroup string "(nat \<times> val \<times> string) list"
  | Accordion string "(string \<times> val \<times> string) list"
  | Unsupported string

definition str_of :: "val \<Rightarrow> string" where
  "str_of v = (case v of VStr s \<Rightarrow> s | _ \<Rightarrow> [])"

definition num_of :: "val \<Rightarrow> jsnum" where
  "num_of v = (case v of VNum n \<Rightarrow> n | _ \<Rightarrow> NaN)"

definition bool_of :: "val \<Rightarrow> bool" where
  "bool_of v = (case v of VBool b \<Rightarrow> b | _ \<Rightarrow> False)"

text \<open>\<^verbatim>\<open>value.map((item, index) => ...)\<close> calls its function for the elements that are not holes.\<close>

definition list_items :: "heap \<Rightarrow> val \<Rightarrow> string \<Rightarrow> (nat \<times> val \<times> string) list" where
  "list_items h v path =
     (case v of
        VRef a \<Rightarrow>
          (case cell_at h a of
             Some (Arr es _) \<Rightarrow>
               List.map_filter
                 (\<lambda>(i, e). map_option (\<lambda>item. (i, item, path @ ''['' @ dec i @ '']'')) e)
                 (enumerate 0 es)
           | _ \<Rightarrow> [])
      | _ \<Rightarrow> [])"

text \<open>
  \<^verbatim>\<open>Object.keys(value).map((key) => ...)\<close> with \<^verbatim>\<open>value[key]\<close> for each own key.
  A native object has no enumerable own property.
\<close>

definition accordion_items :: "heap \<Rightarrow> val \<Rightarrow> string \<Rightarrow> (string \<times> val \<times> string) list" where
  "accordion_items h v path =
     (case v of
        VRef a \<Rightarrow>
          (case cell_at h a of
             Some (Obj ps _) \<Rightarrow> map (\<lambda>(key, x). (key, x, path @ ''.'' @ key)) ps
           | _ \<Rightarrow> [])
      | _ \<Rightarrow> [])"

definition RenderForm :: "heap \<Rightarrow> val \<Rightarrow> string \<Rightarrow> element" where
  "RenderForm h v path =
     (if typeof v = ''string'' then TextField path (str_of v)
      else if typeof v = ''number'' then NumberField path (num_of v)
      else if typeof v = ''boolean'' then CheckBox path (bool_of v)
      else if isArray h v then ListGroup path (list_items h v path)
      else if typeof v = ''object'' \<and> v \<noteq> VNull then Accordion path (accordion_items h v path)
      else Unsupported path)"

text \<open>
  The \<^verbatim>\<open>onChange\<close> handlers. \<open>edit pf el e\<close> is the pair that the handler of
  \<open>el\<close> passes to \<^verbatim>\<open>onChange(newVal, path)\<close> for the event target \<open>e\<close>, and \<open>None\<close>
  when \<open>el\<close> has no handler. \<open>pf\<close> is \<^verbatim>\<open>parseFloat\<close>.
\<close>

record event_target =
  target_value :: string
  target_checked :: bool

fun edit :: "(string \<Rightarrow> jsnum) \<Rightarrow> element \<Rightarrow> event_target \<Rightarrow> (val \<times> string) option" where
  "edit pf (TextField path _) e = Some (VStr (target_value e), path)"
| "edit pf (NumberField path _) e =
     Some (VNum (let n = pf (target_value e) in if truthy_num n then n else Fin 0), path)"
| "edit pf (CheckBox path _) e = Some (VBool (target_checked e), path)"
| "edit pf (ListGroup _ _) e = None"
| "edit pf (Accordion _ _) e = None"
| "edit pf (Unsupported _) e = None"

section \<open>Well-formed stores and the tree a value stands for\<close>

text \<open>
  A store is well formed when every reference in its cells points into it. A value
  is \<open>val_ok n\<close> when it is not a reference or points below \<open>n\<close>.
\<close>

definition val_ok :: "nat \<Rightarrow> val \<Rightarrow> bool" where
  "val_ok n v = (case v of VRef a \<Rightarrow> a < n | _ \<Rightarrow> True)"

definition cell_vals :: "cell \<Rightarrow> val list" where
  "cell_vals c =
     (case c of
        Arr es ps \<Rightarrow> List.map_filter (\<lambda>e. e) es @ map snd ps
      | Obj ps pr \<Rightarrow> pr # map snd ps)"

definition cell_ok :: "nat \<Rightarrow> cell \<Rightarrow> bool" where
  "cell_ok n c = list_all (val_ok n) (cell_vals c)"

definition wf_heap :: "heap \<Rightarrow> bool" where
  "wf_heap h = list_all (cell_ok (length h)) h"

text \<open>The state is well formed when its store is and \<open>formData\<close> points into it.\<close>

definition wf_state :: "form_state \<Rightarrow> bool" where
  "wf_state st = (wf_heap (store st) \<and> val_ok (length (store st)) (formData st))"


text \<open>
  The JSON-shaped tree that a value unfolds to in a store, read to depth \<open>n\<close>
  (\<open>None\<close> when the value is deeper than \<open>n\<close> or a reference leaves the store). Two
  values with the same tree are deeply equal.
\<close>

datatype tree =
    TUndef
  | TNull
  | TBool bool
  | TNum jsnum
  | TStr string
  | TNative string
  | TArr "tree option list" "(string \<times> tree) list"
  | TObj "(string \<times> tree) list"

fun reify :: "nat \<Rightarrow> heap \<Rightarrow> val \<Rightarrow> tree option" where
  "reify 0 h v = None"
| "reify (Suc n) h v =
     (case v of
        VUndef \<Rightarrow> Some TUndef
      | VNull \<Rightarrow> Some TNull
      | VBool b \<Rightarrow> Some (TBool b)
      | VNum x \<Rightarrow> Some (TNum x)
      | VStr s \<Rightarrow> Some (TStr s)
      | VNative s \<Rightarrow> Some (TNative s)
      | VRef a \<Rightarrow>
          (case cell_at h a of
             None \<Rightarrow> None
           | Some (Obj ps _) \<Rightarrow>
               map_option TObj (those (map (\<lambda>(k, x). map_option (Pair k) (reify n h x)) ps))
           | Some (Arr es ps) \<Rightarrow>
               (case those (map (\<lambda>e. case e of None \<Rightarrow> Some None
                                      | Some x \<Rightarrow> map_option Some (reify n h x)) es) of
                  None \<Rightarrow> None
                | Some es' \<Rightarrow>
                    map_option (TArr es')
                      (those (map (\<lambda>(k, x). map_option (Pair k) (reify n h x)) ps)))))"


text \<open>
  What a plain object with the prototype \<^verbatim>\<open>Object.prototype\<close> and the own
  properties \<open>ps\<close> holds after \<^verbatim>\<open>o[k] = x\<close>: its properties and its prototype
  (see \<open>set_str\<close>; the lemma \<open>set_str_fresh\<close> below relates the two).
\<close>

definition assigned_props :: "string \<Rightarrow> val \<Rightarrow> (string \<times> val) list \<Rightarrow> (string \<times> val) list" where
  "assigned_props k x ps =
     (case map_of ps k of
        Some _ \<Rightarrow> update_own k x ps
      | None \<Rightarrow> if k = ''__proto__'' then ps else insert_prop k x ps)"

definition assigned_proto :: "string \<Rightarrow> val \<Rightarrow> (string \<times> val) list \<Rightarrow> val" where
  "assigned_proto k x ps =
     (if map_of ps k = None \<and> k = ''__proto__''
         \<and> (case x of VRef _ \<Rightarrow> True | VNative _ \<Rightarrow> True | VNull \<Rightarrow> True | _ \<Rightarrow> False)
      then x else objproto)"

section \<open>Sample data\<close>

text \<open>
  Stand-ins for the runtime's functions at the inputs of the examples below:
  \<open>sample_parse\<close> answers as \<^verbatim>\<open>JSON.parse\<close> does on the texts \<^verbatim>\<open>7\<close> and
  \<^verbatim>\<open>{invalid\<close>, \<open>sample_parseFloat\<close> as \<^verbatim>\<open>parseFloat\<close> does on \<^verbatim>\<open>3.5\<close> and
  \<^verbatim>\<open>abc\<close>, and \<open>plain_digits\<close> prints an integer by its digits (the examples
  contain no number beyond \<open>2^53\<close>, so it is never called in them).
\<close>

definition sample_parse :: json_parse where
  "sample_parse s h =
     (if s = ''7'' then Inr (VNum (Fin 7), h)
      else Inl ''Unexpected token i in JSON at position 1'')"



definition sample_parseFloat :: "string \<Rightarrow> jsnum" where
  "sample_parseFloat s = (if s = ''3.5'' then Fin (7 / 2) else NaN)"

definition plain_digits :: "int \<Rightarrow> string" where
  "plain_digits n = (if n < 0 then ''-'' else []) @ dec (nat \<bar>n\<bar>)"

definition initial_state :: form_state where
  "initial_state = \<lparr>jsonString = [], formData = VNull, error = None, store = [], console = []\<rparr>"

text \<open>
  The store of \<^verbatim>\<open>{"a": 1, "b": [true, "x"], "c": {"d": null}}\<close>, with the object
  itself at address 0.
\<close>

definition sample_heap :: heap where
  "sample_heap =
     [Obj [(''a'', VNum (Fin 1)), (''b'', VRef 1), (''c'', VRef 2)] objproto,
      Arr [Some (VBool True), Some (VStr ''x'')] [],
      Obj [(''d'', VNull)] objproto]"


text \<open>The stores of \<^verbatim>\<open>{"a": 1, "b": 2}\<close> and of \<^verbatim>\<open>[7, 8]\<close>, each at address 0.\<close>

definition two_keys :: heap where
  "two_keys = [Obj [(''a'', VNum (Fin 1)), (''b'', VNum (Fin 2))] objproto]"

definition pair_array :: heap where
  "pair_array = [Arr [Some (VNum (Fin 7)), Some (VNum (Fin 8))] []]"


section \<open>Properties\<close>

subsection \<open>A scalar root\<close>

definition is_scalar :: "val \<Rightarrow> bool" where
  "is_scalar v = (case v of VStr _ \<Rightarrow> True | VNum _ \<Rightarrow> True | VBool _ \<Rightarrow> True | _ \<Rightarrow> False)"

text \<open>
  Claim C5. When the tree is a bare scalar (a string, a number or a boolean),
  \<^verbatim>\<open>updateNested\<close> returns the new value itself, whatever the path, and touches
  nothing in the store. In particular \<^verbatim>\<open>updateNested(5, "root", true)\<close> is
  \<^verbatim>\<open>true\<close>.
\<close>

theorem scalar_root_is_replaced:
  "(is_scalar obj \<longrightarrow> updateNested bk obj p x h = Inr (x, h))
   \<and> updateNested bk (VNum (Fin 5)) ''root'' (VBool True) h = Inr (VBool True, h)"
  by (cases obj) (simp_all add: is_scalar_def updateNested_def typeof_def)

theorem scalar_root_is_replaced_witness:
  "is_scalar (VStr ''old'')
   \<and> updateNested plain_digits (VStr ''old'') ''root'' (VStr ''new'') [] = Inr (VStr ''new'', [])"
  using scalar_root_is_replaced [of "VStr ''old''" plain_digits "''root''" "VStr ''new''" "[]"]
  by (simp add: is_scalar_def)

subsection \<open>A failed parse\<close>

text \<open>
  Claim C3, as the code has it. When \<^verbatim>\<open>JSON.parse\<close> throws on the text of the
  input area, \<^verbatim>\<open>handleParseJson\<close> sets the error to the fixed prefix followed by the
  parser's message and sets \<open>formData\<close> to \<^verbatim>\<open>null\<close>: the tree of an earlier
  successful parse is discarded. Nothing else of the state changes.
\<close>

theorem failed_parse_resets_value:
  assumes "parse (jsonString st) (store st) = Inl msg"
  shows "handleParseJson parse st = st\<lparr>error := Some (''Invalid JSON: '' @ msg), formData := VNull\<rparr>"
  using assms by (simp add: handleParseJson_def)

theorem failed_parse_resets_value_witness:
  "sample_parse (jsonString (initial_state\<lparr>jsonString := ''{invalid'', formData := VNum (Fin 7)\<rparr>))
     (store (initial_state\<lparr>jsonString := ''{invalid'', formData := VNum (Fin 7)\<rparr>))
     = Inl ''Unexpected token i in JSON at position 1''
   \<and> handleParseJson sample_parse (initial_state\<lparr>jsonString := ''{invalid'', formData := VNum (Fin 7)\<rparr>)
     = initial_state\<lparr>jsonString := ''{invalid'',
          error := Some ''Invalid JSON: Unexpected token i in JSON at position 1'',
          formData := VNull\<rparr>"
proof -
  let ?st = "initial_state\<lparr>jsonString := ''{invalid'', formData := VNum (Fin 7)\<rparr>"
  have fails: "sample_parse (jsonString ?st) (store ?st) = Inl ''Unexpected token i in JSON at position 1''"
    by (simp add: sample_parse_def)
  show ?thesis
    using fails
      failed_parse_resets_value
        [of sample_parse ?st "''Unexpected token i in JSON at position 1''"]
    by (simp add: initial_state_def)
qed

text \<open>
  The claim as the specification states it fails. The text \<^verbatim>\<open>7\<close> is parsed, the
  input area is then changed to \<^verbatim>\<open>{invalid\<close> and parsed again: the value \<open>7\<close> of
  the first parse is gone.
\<close>

theorem failed_parse_keeps_value_counterexample:
  "formData (handleParseJson sample_parse (initial_state\<lparr>jsonString := ''7''\<rparr>)) = VNum (Fin 7)
   \<and> formData (handleParseJson sample_parse
        ((handleParseJson sample_parse (initial_state\<lparr>jsonString := ''7''\<rparr>))\<lparr>jsonString := ''{invalid''\<rparr>))
      \<noteq> formData (handleParseJson sample_parse (initial_state\<lparr>jsonString := ''7''\<rparr>))"
  by (simp add: handleParseJson_def sample_parse_def initial_state_def)

subsection \<open>The numeric field\<close>

text \<open>
  Claim C7. The handler of a numeric field passes on the number that
  \<^verbatim>\<open>parseFloat\<close> reads from the text, and the number \<open>0\<close> when \<^verbatim>\<open>parseFloat\<close>
  yields \<^verbatim>\<open>NaN\<close>. It has no error outcome, and the value the field held before
  plays no part. (A negative zero is falsy too, so it is passed on as the zero
  \<open>Fin 0\<close>.)
\<close>

theorem numeric_edit_falls_back_to_zero:
  "(pf (target_value e) = NaN \<longrightarrow>
      edit pf (RenderForm h (VNum old) path) e = Some (VNum (Fin 0), path))
   \<and> (pf (target_value e) \<noteq> NaN \<longrightarrow>
      edit pf (RenderForm h (VNum old) path) e =
        Some (VNum (if pf (target_value e) = NegZero then Fin 0 else pf (target_value e)), path))"
  by (simp add: RenderForm_def typeof_def num_of_def truthy_num_def Let_def)

theorem numeric_edit_falls_back_to_zero_witness:
  "sample_parseFloat (target_value \<lparr>target_value = ''abc'', target_checked = False\<rparr>) = NaN
   \<and> edit sample_parseFloat (RenderForm [] (VNum (Fin 12)) ''root.a'')
        \<lparr>target_value = ''abc'', target_checked = False\<rparr> = Some (VNum (Fin 0), ''root.a'')
   \<and> sample_parseFloat (target_value \<lparr>target_value = ''3.5'', target_checked = False\<rparr>) \<noteq> NaN
   \<and> edit sample_parseFloat (RenderForm [] (VNum (Fin 12)) ''root.a'')
        \<lparr>target_value = ''3.5'', target_checked = False\<rparr> = Some (VNum (Fin (7 / 2)), ''root.a'')"
  using numeric_edit_falls_back_to_zero
          [of sample_parseFloat "\<lparr>target_value = ''abc'', target_checked = False\<rparr>" "[]" "Fin 12" "''root.a''"]
        numeric_edit_falls_back_to_zero
          [of sample_parseFloat "\<lparr>target_value = ''3.5'', target_checked = False\<rparr>" "[]" "Fin 12" "''root.a''"]
  by (simp add: sample_parseFloat_def)

subsection \<open>A falsy root\<close>

text \<open>
  Claim C10. When \<open>formData\<close> is the number zero, \<^verbatim>\<open>false\<close> or the empty string,
  the guards \<^verbatim>\<open>if (formData)\<close> and \<^verbatim>\<open>formData && ...\<close> fail as they do for
  \<^verbatim>\<open>null\<close>: \<^verbatim>\<open>handleFormChange\<close> leaves the state as it is for every path and
  new value, \<^verbatim>\<open>handleJsonOutput\<close> writes nothing, and no \<^verbatim>\<open>RenderForm\<close> element
  is returned.
\<close>

theorem falsy_root_is_treated_as_absent:
  assumes "formData st \<in> {VNum (Fin 0), VNum NegZero, VBool False, VStr []}"
  shows "truthy (formData st) = truthy VNull
         \<and> handleFormChange bk newValue path st = Inr st
         \<and> handleJsonOutput stringify st = st
         \<and> console (handleJsonOutput stringify st) = console st
         \<and> preview st = Falsy (formData st)"
  using assms
  by (auto simp add: handleFormChange_def handleJsonOutput_def preview_def truthy_def truthy_num_def)

theorem falsy_root_is_treated_as_absent_witness:
  "formData (initial_state\<lparr>formData := VNum (Fin 0)\<rparr>) \<in> {VNum (Fin 0), VNum NegZero, VBool False, VStr []}
   \<and> handleFormChange plain_digits (VNum (Fin 5)) ''root'' (initial_state\<lparr>formData := VNum (Fin 0)\<rparr>)
       = Inr (initial_state\<lparr>formData := VNum (Fin 0)\<rparr>)
   \<and> handleJsonOutput (\<lambda>h v. ''0'') (initial_state\<lparr>formData := VNum (Fin 0)\<rparr>)
       = initial_state\<lparr>formData := VNum (Fin 0)\<rparr>
   \<and> preview (initial_state\<lparr>formData := VNum (Fin 0)\<rparr>) = Falsy (VNum (Fin 0))"
proof -
  let ?st = "initial_state\<lparr>formData := VNum (Fin 0)\<rparr>"
  have falsy: "formData ?st \<in> {VNum (Fin 0), VNum NegZero, VBool False, VStr []}"
    by simp
  show ?thesis
    using falsy falsy_root_is_treated_as_absent [OF falsy, of plain_digits "VNum (Fin 5)" "''root''" "\<lambda>h v. ''0''"]
    by simp
qed

subsection \<open>Parsing what was printed\<close>




subsection \<open>The shapes \<^verbatim>\<open>RenderForm\<close> tells apart\<close>

lemma list_items_members:
  "cell_at h a = Some (Arr es ps) \<Longrightarrow>
   ((i, item, q) \<in> set (list_items h (VRef a) path)) =
   (i < length es \<and> es ! i = Some item \<and> q = path @ ''['' @ dec i @ '']'')"
  by (auto simp add: list_items_def List.map_filter_def in_set_enumerate_eq image_iff)

lemma accordion_items_eq:
  "cell_at h a = Some (Obj qs pr) \<Longrightarrow>
   accordion_items h (VRef a) path = map (\<lambda>(key, x). (key, x, path @ ''.'' @ key)) qs"
  by (simp add: accordion_items_def)

lemma dec_small: "dec 0 = ''0''" "dec (Suc 0) = ''1''"
  by (simp_all add: dec.simps digit_char_def)

text \<open>
  Claim C8. \<^verbatim>\<open>RenderForm\<close> returns one element, chosen by the first test that
  succeeds: a text field for a string, a numeric field for a number, a check box for
  a boolean; for an array a list with one child per element that is not a hole, at
  the path extended by the index in brackets; for a plain object an accordion with
  one child per own key, in key order, at the path extended by a dot and the key; and
  for \<^verbatim>\<open>null\<close> and \<^verbatim>\<open>undefined\<close> the placeholder, which has no handler. The
  topmost element is rendered at the path \<^verbatim>\<open>root\<close>.
\<close>

theorem render_dispatch:
  "RenderForm h (VStr s) path = TextField path s
   \<and> RenderForm h (VNum n) path = NumberField path n
   \<and> RenderForm h (VBool b) path = CheckBox path b
   \<and> (cell_at h a = Some (Arr es ps) \<longrightarrow>
        RenderForm h (VRef a) path = ListGroup path (list_items h (VRef a) path)
        \<and> (\<forall>i item q. ((i, item, q) \<in> set (list_items h (VRef a) path)) =
              (i < length es \<and> es ! i = Some item \<and> q = path @ ''['' @ dec i @ '']'')))
   \<and> (cell_at h a = Some (Obj qs pr) \<longrightarrow>
        RenderForm h (VRef a) path =
          Accordion path (map (\<lambda>(key, x). (key, x, path @ ''.'' @ key)) qs))
   \<and> RenderForm h VNull path = Unsupported path
   \<and> RenderForm h VUndef path = Unsupported path
   \<and> edit pf (Unsupported path) e = None
   \<and> (truthy (formData st) \<longrightarrow> preview st = Preview (formData st) ''root'')"
  by (simp add: RenderForm_def typeof_def str_of_def num_of_def bool_of_def isArray_def
        list_items_members accordion_items_eq preview_def)

theorem render_dispatch_witness:
  "cell_at sample_heap 1 = Some (Arr [Some (VBool True), Some (VStr ''x'')] [])
   \<and> RenderForm sample_heap (VRef 1) ''root.b'' =
       ListGroup ''root.b'' [(0, VBool True, ''root.b[0]''), (1, VStr ''x'', ''root.b[1]'')]
   \<and> cell_at sample_heap 2 = Some (Obj [(''d'', VNull)] objproto)
   \<and> RenderForm sample_heap (VRef 2) ''root.c'' = Accordion ''root.c'' [(''d'', VNull, ''root.c.d'')]
   \<and> RenderForm sample_heap (VRef 0) ''root'' =
       Accordion ''root'' [(''a'', VNum (Fin 1), ''root.a''), (''b'', VRef 1, ''root.b''), (''c'', VRef 2, ''root.c'')]
   \<and> RenderForm sample_heap (VNum (Fin 1)) ''root.a'' = NumberField ''root.a'' (Fin 1)
   \<and> RenderForm sample_heap (VBool True) ''root.b[0]'' = CheckBox ''root.b[0]'' True
   \<and> RenderForm sample_heap (VStr ''x'') ''root.b[1]'' = TextField ''root.b[1]'' ''x''
   \<and> RenderForm sample_heap VNull ''root.c.d'' = Unsupported ''root.c.d''
   \<and> truthy (formData (initial_state\<lparr>formData := VRef 0, store := sample_heap\<rparr>))
   \<and> preview (initial_state\<lparr>formData := VRef 0, store := sample_heap\<rparr>) = Preview (VRef 0) ''root''"
proof -
  have c1: "cell_at sample_heap 1 = Some (Arr [Some (VBool True), Some (VStr ''x'')] [])"
    and c2: "cell_at sample_heap 2 = Some (Obj [(''d'', VNull)] objproto)"
    and c0: "cell_at sample_heap 0 = Some (Obj [(''a'', VNum (Fin 1)), (''b'', VRef 1), (''c'', VRef 2)] objproto)"
    by (simp_all add: sample_heap_def cell_at_def)
  have items: "list_items sample_heap (VRef 1) ''root.b'' =
      [(0, VBool True, ''root.b[0]''), (1, VStr ''x'', ''root.b[1]'')]"
    by (simp add: list_items_def c1 [simplified] dec_small)
  have t: "truthy (formData (initial_state\<lparr>formData := VRef 0, store := sample_heap\<rparr>))"
    by (simp add: truthy_def)
  show ?thesis
    using c1 c2 c0 [simplified] items t
      render_dispatch [of sample_heap "''x''" "''root.b[1]''" "Fin 1" True 1
                          "[Some (VBool True), Some (VStr ''x'')]" "[]" "[]" objproto "\<lambda>s. NaN"
                          "\<lparr>target_value = [], target_checked = False\<rparr>"
                          "initial_state\<lparr>formData := VRef 0, store := sample_heap\<rparr>"]
      render_dispatch [of sample_heap "''x''" "''root.c''" "Fin 1" True 2
                          "[]" "[]" "[(''d'', VNull)]" objproto "\<lambda>s. NaN"
                          "\<lparr>target_value = [], target_checked = False\<rparr>"
                          "initial_state\<lparr>formData := VRef 0, store := sample_heap\<rparr>"]
    by (simp add: RenderForm_def typeof_def str_of_def num_of_def bool_of_def isArray_def accordion_items_def)
qed

subsection \<open>The store operations on well-formed stores\<close>

text \<open>
  Well-formedness grows with the store, and the values that a spread copies out of a
  well-formed store point into it.
\<close>

lemma val_ok_mono: "val_ok n v \<Longrightarrow> n \<le> m \<Longrightarrow> val_ok m v"
  by (cases v) (auto simp: val_ok_def)

lemma cell_ok_mono: "cell_ok n c \<Longrightarrow> n \<le> m \<Longrightarrow> cell_ok m c"
  by (auto simp: cell_ok_def list_all_iff intro: val_ok_mono)

lemma wf_heap_append:
  "wf_heap h \<Longrightarrow> list_all (cell_ok (length h + length cs)) cs \<Longrightarrow> wf_heap (h @ cs)"
  by (auto simp: wf_heap_def list_all_iff intro: cell_ok_mono)

lemma wf_heap_cell: "wf_heap h \<Longrightarrow> cell_at h a = Some c \<Longrightarrow> cell_ok (length h) c"
  by (auto simp: wf_heap_def cell_at_def list_all_iff split: if_splits)

lemma cell_at_append_old: "a < length h \<Longrightarrow> cell_at (h @ cs) a = Some (h ! a)"
  by (simp add: cell_at_def nth_append)

lemma cell_at_append_new: "cell_at (h @ c # cs) (length h) = Some c"
  by (simp add: cell_at_def)

lemma set_present: "set (List.map_filter (\<lambda>e. e) es) = {v. Some v \<in> set es}"
  by (induction es) (auto split: option.splits)

lemma index_props_vals: "set (map snd (index_props es)) \<subseteq> {v. Some v \<in> set es}"
  by (auto simp: index_props_def List.map_filter_def in_set_enumerate_eq image_iff)
     (metis nth_mem)

lemma own_enumerable_ok:
  assumes "wf_heap h" "val_ok (length h) v"
  shows "\<exists>ps. own_enumerable h v = Inr ps \<and> list_all (val_ok (length h)) (map snd ps)"
proof (cases v)
  case (VRef a)
  with assms have a: "a < length h" by (simp add: val_ok_def)
  then have c: "cell_at h a = Some (h ! a)" by (simp add: cell_at_def)
  from wf_heap_cell [OF assms(1) c] have ok: "cell_ok (length h) (h ! a)" .
  show ?thesis
  proof (cases "h ! a")
    case (Arr es ps)
    with ok index_props_vals [of es] show ?thesis
      by (auto simp: own_enumerable_def VRef c cell_ok_def cell_vals_def list_all_iff set_present)
  next
    case (Obj ps pr)
    with ok show ?thesis
      by (auto simp: own_enumerable_def VRef c cell_ok_def cell_vals_def list_all_iff)
  qed
next
  case (VStr s)
  then show ?thesis
    by (auto simp: own_enumerable_def list_all_iff val_ok_def in_set_enumerate_eq)
qed (simp_all add: own_enumerable_def)

lemma spread_obj_ok:
  assumes "wf_heap h" "val_ok (length h) v"
  shows "\<exists>ps. spread_obj h v = Inr (VRef (length h), h @ [Obj ps objproto])
           \<and> own_enumerable h v = Inr ps
           \<and> list_all (val_ok (length h)) (map snd ps)"
  using own_enumerable_ok [OF assms] by (auto simp: spread_obj_def bindE_def)

lemma spread_arr_ok:
  assumes "wf_heap h" "isArray h v"
  shows "\<exists>es. spread_arr h v = Inr (VRef (length h), h @ [Arr es []])
           \<and> list_all (val_ok (length h)) (List.map_filter (\<lambda>e. e) es)"
proof -
  from assms(2) obtain a es0 ps0 where v: "v = VRef a" and c: "cell_at h a = Some (Arr es0 ps0)"
    by (auto simp: isArray_def split: val.splits option.splits cell.splits)
  from wf_heap_cell [OF assms(1) c] have ok: "list_all (val_ok (length h)) (List.map_filter (\<lambda>e. e) es0)"
    by (simp add: cell_ok_def cell_vals_def)
  have "list_all (val_ok (length h))
          (List.map_filter (\<lambda>e. e) (map (\<lambda>e. Some (case e of None \<Rightarrow> VUndef | Some x \<Rightarrow> x)) es0))"
    using ok by (induction es0) (auto simp: val_ok_def split: option.splits)
  then show ?thesis by (simp add: spread_arr_def v c)
qed


text \<open>Property lists: what an update or an insertion leaves under each key.\<close>

lemma cell_ok_Arr:
  "cell_ok n (Arr es ps) = ((\<forall>v. Some v \<in> set es \<longrightarrow> val_ok n v) \<and> (\<forall>v \<in> snd ` set ps. val_ok n v))"
  by (auto simp: cell_ok_def cell_vals_def list_all_iff set_present)

lemma cell_ok_Obj:
  "cell_ok n (Obj ps pr) = (val_ok n pr \<and> (\<forall>v \<in> snd ` set ps. val_ok n v))"
  by (auto simp: cell_ok_def cell_vals_def list_all_iff)

lemma update_own_vals: "snd ` set (update_own k x ps) \<subseteq> insert x (snd ` set ps)"
  by (auto simp: update_own_def)

lemma insert_index_set: "set (insert_index i kv ps) = insert kv (set ps)"
  by (induction ps) (auto split: option.splits)

lemma insert_prop_set: "set (insert_prop k x ps) = insert (k, x) (set ps)"
  by (auto simp: insert_prop_def insert_index_set split: option.splits)

lemma map_of_update_own:
  "map_of (update_own k x ps) k' = (if k' = k \<and> map_of ps k \<noteq> None then Some x else map_of ps k')"
  by (induction ps) (auto simp: update_own_def)

lemma map_of_insert_index:
  "map_of ps k = None \<Longrightarrow>
   map_of (insert_index i (k, x) ps) k' = (if k' = k then Some x else map_of ps k')"
  by (induction ps) (auto split: option.splits if_splits)

lemma map_of_insert_prop:
  "map_of ps k = None \<Longrightarrow>
   map_of (insert_prop k x ps) k' = (if k' = k then Some x else map_of ps k')"
  by (auto simp: insert_prop_def map_of_insert_index map_add_def split: option.splits)

lemma chain_reaches_native [simp]: "chain_reaches m h (VNative s) a = False"
  by (cases m) simp_all

lemma own_enumerable_append:
  "val_ok (length h) v \<Longrightarrow> own_enumerable (h @ cs) v = own_enumerable h v"
  by (cases v) (auto simp: own_enumerable_def val_ok_def cell_at_def nth_append)

text \<open>
  An assignment into an array cell or into a fresh plain object, and the read of the
  same key that follows it in the loop.
\<close>

lemma present_update: "{v. Some v \<in> set (es[i := Some x])} \<subseteq> insert x {v. Some v \<in> set es}"
  using set_update_subset_insert [of es i "Some x"] by auto

lemma set_num_at:
  "cell_at h a = Some (Arr es ps) \<Longrightarrow> set_num h (VRef a) k x = Inr (h[a := arr_assign k x es ps])"
  by (simp add: set_num_def)

lemma get_num_arr_assign:
  "cell_at h a = Some (arr_assign k x es ps) \<Longrightarrow> get_num h (VRef a) k = Inr x"
  by (cases k; cases "map_of ps (case k of Named s \<Rightarrow> s | _ \<Rightarrow> [])")
     (auto simp: get_num_def arr_assign_def nth_append map_of_update_own map_add_def
           split: if_splits)

lemma update_own_mem: "(a, b) \<in> set (update_own k x ps) \<Longrightarrow> b = x \<or> (a, b) \<in> set ps"
  by (auto simp: update_own_def split: if_splits)

lemma list_update_mem: "Some v \<in> set (es[i := Some x]) \<Longrightarrow> v = x \<or> Some v \<in> set es"
  using set_update_subset_insert [of es i "Some x"] by auto

lemma arr_assign_ok:
  "cell_ok n (Arr es ps) \<Longrightarrow> val_ok n x \<Longrightarrow> cell_ok n (arr_assign k x es ps)"
  by (cases k)
     (auto simp: arr_assign_def cell_ok_Arr split: option.splits
           dest!: update_own_mem list_update_mem)

lemma set_str_fresh:
  assumes c: "cell_at h a = Some (Obj ps objproto)"
      and nc: "\<not> chain_reaches (length h) h x a"
  shows "set_str h (VRef a) k x = Inr (h[a := Obj (assigned_props k x ps) (assigned_proto k x ps)])"
proof -
  from c have a: "a < length h" and ha: "h ! a = Obj ps objproto"
    by (auto simp: cell_at_def split: if_splits)
  have same: "h[a := Obj ps objproto] = h" using a ha by (metis list_update_id)
  show ?thesis
  proof (cases "map_of ps k")
    case (Some y)
    then show ?thesis using c by (simp add: set_str_def assigned_props_def assigned_proto_def)
  next
    case None
    show ?thesis
    proof (cases "k = ''__proto__''")
      case False
      then show ?thesis using c None by (simp add: set_str_def assigned_props_def assigned_proto_def)
    next
      case True
      show ?thesis using c None True nc same
        by (cases x) (simp_all add: set_str_def assigned_props_def assigned_proto_def)
    qed
  qed
qed

lemma assigned_ok:
  "cell_ok n (Obj ps objproto) \<Longrightarrow> val_ok n x \<Longrightarrow>
   cell_ok n (Obj (assigned_props k x ps) (assigned_proto k x ps))"
  by (auto simp: cell_ok_Obj assigned_props_def assigned_proto_def insert_prop_set
           split: option.splits dest!: update_own_mem)

lemma get_str_assigned:
  assumes ca: "cell_at h a = Some (Obj (assigned_props k (VRef b) ps) (assigned_proto k (VRef b) ps))"
      and cb: "cell_at h b = Some (Obj qs objproto)"
      and q: "k = ''__proto__'' \<Longrightarrow> map_of ps k = None \<Longrightarrow> map_of qs ''__proto__'' = None"
  shows "get_str h (VRef a) k = Inr (VRef b)"
proof (cases "map_of ps k")
  case (Some y)
  then show ?thesis using ca
    by (simp add: get_str_def assigned_props_def map_of_update_own)
next
  case None
  show ?thesis
  proof (cases "k = ''__proto__''")
    case False
    then show ?thesis using ca None
      by (simp add: get_str_def assigned_props_def map_of_insert_prop)
  next
    case True
    have "plain_link h (VRef b)" using cb q [OF True None] by (simp add: plain_link_def)
    then show ?thesis using ca None True
      by (simp add: get_str_def assigned_props_def assigned_proto_def objproto_def)
  qed
qed

text \<open>
  No prototype chain of a well-formed store reaches a cell that is allocated later, so
  the setter of \<^verbatim>\<open>__proto__\<close> never finds a cycle through a fresh copy.
\<close>

lemma chain_below:
  assumes "wf_heap h"
  shows "val_ok (length h) p \<Longrightarrow> \<not> chain_reaches m (h @ cs) p (length h)"
proof (induction m arbitrary: p)
  case 0
  then show ?case by simp
next
  case (Suc m)
  show ?case
  proof (cases p)
    case (VRef b)
    with Suc.prems have b: "b < length h" by (simp add: val_ok_def)
    then have cb: "cell_at (h @ cs) b = Some (h ! b)" by (simp add: cell_at_def nth_append)
    have ok: "cell_ok (length h) (h ! b)"
      using assms b by (simp add: wf_heap_def list_all_length)
    show ?thesis
    proof (cases "h ! b")
      case (Arr es ps)
      then show ?thesis using VRef b cb by simp
    next
      case (Obj ps pr)
      with ok have "val_ok (length h) pr" by (simp add: cell_ok_Obj)
      from Suc.IH [OF this] show ?thesis using VRef b cb Obj by simp
    qed
  qed simp_all
qed


text \<open>
  One round of the loop allocates two cells, the copy of the container and the copy of
  the slot, and continues in the second, a plain object.
\<close>

lemma cell_at_fresh0 [simp]: "cell_at (h @ c # cs) (length h) = Some c"
  by (simp add: cell_at_def)

lemma cell_at_fresh1 [simp]: "cell_at (h @ c # c' # cs) (Suc (length h)) = Some c'"
  by (simp add: cell_at_def nth_append)

lemma list_update_fresh: "(h @ c # cs)[length h := c'] = h @ c' # cs"
  by (simp add: list_update_append)

lemma step_array:
  assumes wf: "wf_heap h" and arr: "cell_at h a = Some (Arr es0 ps0)"
  shows "\<exists>c1 qs. step bk t (VRef a) h = Inr (VRef (Suc (length h)), h @ [c1, Obj qs objproto])
           \<and> cell_ok (length h + 2) c1 \<and> cell_ok (length h + 2) (Obj qs objproto)"
proof -
  let ?k = "key_of bk (parseInt (strip_bracket t))"
  let ?es = "map (\<lambda>e. Some (case e of None \<Rightarrow> VUndef | Some x \<Rightarrow> x)) es0"
  let ?h1 = "h @ [Arr ?es []]"
  have isa: "isArray h (VRef a)" using arr by (simp add: isArray_def)
  have sp: "spread_arr h (VRef a) = Inr (VRef (length h), ?h1)"
    using arr by (simp add: spread_arr_def)
  from wf_heap_cell [OF wf arr] have ok0: "\<forall>v. Some v \<in> set es0 \<longrightarrow> val_ok (length h) v"
    by (simp add: cell_ok_Arr)
  have okes: "\<forall>v. Some v \<in> set ?es \<longrightarrow> val_ok (length h) v"
    using ok0 by (auto simp: val_ok_def split: option.splits)
  have c1: "cell_ok (length h + 1) (Arr ?es [])"
    unfolding cell_ok_Arr using okes val_ok_mono [of "length h" _ "length h + 1"] by simp
  have wf1: "wf_heap ?h1" using wf c1 by (intro wf_heap_append) simp_all
  obtain old where g: "get_num ?h1 (VRef (length h)) ?k = Inr old" and oldok: "val_ok (length h) old"
  proof -
    let ?old = "case ?k of
                  Index i \<Rightarrow> (if i < length ?es then (case ?es ! i of Some x \<Rightarrow> x | None \<Rightarrow> VUndef) else VUndef)
                | Named s \<Rightarrow> VUndef"
    have "get_num ?h1 (VRef (length h)) ?k = Inr ?old"
      by (cases ?k) (simp_all add: get_num_def)
    moreover have "val_ok (length h) ?old"
      using okes by (cases ?k) (auto simp: val_ok_def split: option.splits)
    ultimately show ?thesis using that by blast
  qed
  from oldok have oldok1: "val_ok (length ?h1) old" by (auto intro: val_ok_mono)
  from spread_obj_ok [OF wf1 oldok1] obtain qs where
    so: "spread_obj ?h1 old = Inr (VRef (Suc (length h)), ?h1 @ [Obj qs objproto])"
    and qok: "list_all (val_ok (length ?h1)) (map snd qs)"
    by auto
  let ?h2 = "h @ [Arr ?es [], Obj qs objproto]"
  let ?c = "arr_assign ?k (VRef (Suc (length h))) ?es []"
  let ?h3 = "h @ [?c, Obj qs objproto]"
  have sn: "set_num ?h2 (VRef (length h)) ?k (VRef (Suc (length h))) = Inr ?h3"
    using set_num_at [of ?h2 "length h" ?es "[]" ?k "VRef (Suc (length h))"]
    by (simp add: list_update_append)
  have gn: "get_num ?h3 (VRef (length h)) ?k = Inr (VRef (Suc (length h)))"
    by (rule get_num_arr_assign [of _ _ _ _ ?es "[]"]) simp
  have st: "step bk t (VRef a) h = Inr (VRef (Suc (length h)), ?h3)"
    using isa sp g so sn gn by (simp add: step_def bindE_def Let_def)
  have okc: "cell_ok (length h + 2) ?c"
    using c1 by (intro arr_assign_ok) (auto intro: cell_ok_mono simp: val_ok_def)
  have okq: "cell_ok (length h + 2) (Obj qs objproto)"
    using qok by (auto simp: cell_ok_Obj list_all_iff objproto_def val_ok_def split: val.splits)
  from st okc okq show ?thesis by blast
qed

lemma step_object:
  assumes wf: "wf_heap h" and cur: "val_ok (length h) current" and na: "\<not> isArray h current"
  shows "\<exists>c1 qs. step bk t current h = Inr (VRef (Suc (length h)), h @ [c1, Obj qs objproto])
           \<and> cell_ok (length h + 2) c1 \<and> cell_ok (length h + 2) (Obj qs objproto)"
proof -
  let ?key = "strip_bracket t"
  from spread_obj_ok [OF wf cur] obtain ps where
    sp: "spread_obj h current = Inr (VRef (length h), h @ [Obj ps objproto])"
    and pok: "list_all (val_ok (length h)) (map snd ps)"
    by blast
  let ?h1 = "h @ [Obj ps objproto]"
  have c1: "cell_ok (length h + 1) (Obj ps objproto)"
    using pok by (auto simp: cell_ok_Obj list_all_iff objproto_def val_ok_def split: val.splits)
  have wf1: "wf_heap ?h1" using wf c1 by (intro wf_heap_append) simp_all
  let ?old = "case map_of ps ?key of
                Some x \<Rightarrow> x
              | None \<Rightarrow> if ?key = ''__proto__'' then objproto
                        else if ?key \<in> set objproto_methods then VNative ?key else VUndef"
  have g: "get_str ?h1 (VRef (length h)) ?key = Inr ?old"
    by (simp add: get_str_def split: option.splits)
  have oldok: "val_ok (length ?h1) ?old"
    using pok by (auto simp: list_all_iff val_ok_def objproto_def dest!: map_of_SomeD
                       split: option.splits val.splits)
  from spread_obj_ok [OF wf1 oldok] obtain qs where
    so: "spread_obj ?h1 ?old = Inr (VRef (Suc (length h)), ?h1 @ [Obj qs objproto])"
    and oe: "own_enumerable ?h1 ?old = Inr qs"
    and qok: "list_all (val_ok (length ?h1)) (map snd qs)"
    by auto
  have qs_proto: "?key = ''__proto__'' \<Longrightarrow> map_of ps ?key = None \<Longrightarrow> map_of qs ''__proto__'' = None"
    using oe by (simp add: own_enumerable_def objproto_def)
  let ?h2 = "h @ [Obj ps objproto, Obj qs objproto]"
  let ?x = "VRef (Suc (length h))"
  let ?c = "Obj (assigned_props ?key ?x ps) (assigned_proto ?key ?x ps)"
  let ?h3 = "h @ [?c, Obj qs objproto]"
  have nc: "\<not> chain_reaches (length ?h2) ?h2 ?x (length h)"
    by (simp add: objproto_def)
  have ss: "set_str ?h2 (VRef (length h)) ?key ?x = Inr ?h3"
    using set_str_fresh [of ?h2 "length h" ps ?x ?key] nc
    by (simp add: list_update_append)
  have gs: "get_str ?h3 (VRef (length h)) ?key = Inr ?x"
    by (rule get_str_assigned [of _ _ _ _ ps qs]) (simp_all add: qs_proto)
  have st: "step bk t current h = Inr (?x, ?h3)"
    using na sp g so ss gs by (simp add: step_def bindE_def Let_def)
  have okc: "cell_ok (length h + 2) ?c"
    using c1 by (intro assigned_ok) (auto intro: cell_ok_mono simp: val_ok_def)
  have okq: "cell_ok (length h + 2) (Obj qs objproto)"
    using qok by (auto simp: cell_ok_Obj list_all_iff objproto_def val_ok_def split: val.splits)
  from st okc okq show ?thesis by blast
qed


lemma step_ok:
  assumes "wf_heap h" "val_ok (length h) current"
  shows "\<exists>c1 qs. step bk t current h = Inr (VRef (Suc (length h)), h @ [c1, Obj qs objproto])
           \<and> cell_ok (length h + 2) c1 \<and> cell_ok (length h + 2) (Obj qs objproto)"
proof (cases "isArray h current")
  case True
  then obtain a es0 ps0 where "current = VRef a" "cell_at h a = Some (Arr es0 ps0)"
    by (auto simp: isArray_def split: val.splits option.splits cell.splits)
  with step_array [OF assms(1)] show ?thesis by simp
next
  case False
  from step_object [OF assms this] show ?thesis .
qed

lemma walk_ok:
  assumes "wf_heap h" "val_ok (length h) current"
  shows "\<exists>r ext. walk bk ts current h = Inr (r, h @ ext) \<and> wf_heap (h @ ext)
           \<and> val_ok (length (h @ ext)) r \<and> (ts \<noteq> [] \<longrightarrow> \<not> isArray (h @ ext) r)"
  using assms
proof (induction ts arbitrary: current h)
  case Nil
  have "walk bk [] current h = Inr (current, h @ [])" by simp
  with Nil show ?case by (metis append_Nil2)
next
  case (Cons t ts)
  from step_ok [OF Cons.prems, of bk t] obtain c1 qs where
    st: "step bk t current h = Inr (VRef (Suc (length h)), h @ [c1, Obj qs objproto])"
    and ok1: "cell_ok (length h + 2) c1" and ok2: "cell_ok (length h + 2) (Obj qs objproto)"
    by blast
  let ?h = "h @ [c1, Obj qs objproto]"
  let ?c = "VRef (Suc (length h))"
  have wf': "wf_heap ?h" using Cons.prems(1) ok1 ok2 by (intro wf_heap_append) simp_all
  have v': "val_ok (length ?h) ?c" by (simp add: val_ok_def)
  have na: "\<not> isArray ?h ?c" by (simp add: isArray_def)
  from Cons.IH [OF wf' v'] obtain r ext where
    w: "walk bk ts ?c ?h = Inr (r, ?h @ ext)" and wfe: "wf_heap (?h @ ext)"
    and vr: "val_ok (length (?h @ ext)) r" and nar: "ts \<noteq> [] \<longrightarrow> \<not> isArray (?h @ ext) r"
    by blast
  have res: "walk bk (t # ts) current h = Inr (r, h @ ([c1, Obj qs objproto] @ ext))"
    using st w by (simp add: bindE_def)
  have "\<not> isArray (h @ ([c1, Obj qs objproto] @ ext)) r"
  proof (cases ts)
    case Nil
    with w have "r = ?c" "ext = []" by simp_all
    with na show ?thesis by simp
  next
    case (Cons t' ts')
    with nar show ?thesis by simp
  qed
  with res wfe vr show ?case
    by (intro exI [of _ r] exI [of _ "[c1, Obj qs objproto] @ ext"]) simp
qed


text \<open>The final write allocates one cell and returns its address.\<close>

lemma finish_array:
  assumes "cell_at h a = Some (Arr es0 ps0)"
  shows "finish bk lastKey (VRef a) v h =
           Inr (VRef (length h),
                h @ [arr_assign (key_of bk (parseInt lastKey)) v
                       (map (\<lambda>e. Some (case e of None \<Rightarrow> VUndef | Some x \<Rightarrow> x)) es0) []])"
proof -
  let ?es = "map (\<lambda>e. Some (case e of None \<Rightarrow> VUndef | Some x \<Rightarrow> x)) es0"
  have isa: "isArray h (VRef a)" using assms by (simp add: isArray_def)
  have sp: "spread_arr h (VRef a) = Inr (VRef (length h), h @ [Arr ?es []])"
    using assms by (simp add: spread_arr_def)
  have sn: "set_num (h @ [Arr ?es []]) (VRef (length h)) (key_of bk (parseInt lastKey)) v =
              Inr (h @ [arr_assign (key_of bk (parseInt lastKey)) v ?es []])"
    using set_num_at [of "h @ [Arr ?es []]" "length h" ?es "[]"] by (simp add: list_update_append)
  show ?thesis using isa sp sn by (simp add: finish_def bindE_def)
qed

lemma finish_object:
  assumes wf: "wf_heap h" and cur: "val_ok (length h) current" and v: "val_ok (length h) v"
      and na: "\<not> isArray h current"
  shows "\<exists>ps. own_enumerable h current = Inr ps
           \<and> list_all (val_ok (length h)) (map snd ps)
           \<and> finish bk lastKey current v h =
               Inr (VRef (length h),
                    h @ [Obj (assigned_props lastKey v ps) (assigned_proto lastKey v ps)])"
proof -
  from spread_obj_ok [OF wf cur] obtain ps where
    sp: "spread_obj h current = Inr (VRef (length h), h @ [Obj ps objproto])"
    and oe: "own_enumerable h current = Inr ps"
    and pok: "list_all (val_ok (length h)) (map snd ps)"
    by blast
  have nc: "\<not> chain_reaches (length (h @ [Obj ps objproto])) (h @ [Obj ps objproto]) v (length h)"
    by (rule chain_below [OF wf v])
  have ss: "set_str (h @ [Obj ps objproto]) (VRef (length h)) lastKey v =
              Inr (h @ [Obj (assigned_props lastKey v ps) (assigned_proto lastKey v ps)])"
    using set_str_fresh [of "h @ [Obj ps objproto]" "length h" ps v lastKey] nc
    by (simp add: list_update_append)
  have "finish bk lastKey current v h =
          Inr (VRef (length h), h @ [Obj (assigned_props lastKey v ps) (assigned_proto lastKey v ps)])"
    using na sp ss by (simp add: finish_def bindE_def)
  with oe pok show ?thesis by blast
qed

lemma finish_ok:
  assumes wf: "wf_heap h" and cur: "val_ok (length h) current" and v: "val_ok (length h) v"
  shows "\<exists>c. finish bk lastKey current v h = Inr (VRef (length h), h @ [c]) \<and> cell_ok (length h + 1) c"
proof (cases "isArray h current")
  case True
  then obtain a es0 ps0 where cur': "current = VRef a" and c: "cell_at h a = Some (Arr es0 ps0)"
    by (auto simp: isArray_def split: val.splits option.splits cell.splits)
  let ?es = "map (\<lambda>e. Some (case e of None \<Rightarrow> VUndef | Some x \<Rightarrow> x)) es0"
  from wf_heap_cell [OF wf c] have "\<forall>v. Some v \<in> set es0 \<longrightarrow> val_ok (length h) v"
    by (simp add: cell_ok_Arr)
  then have "\<forall>v. Some v \<in> set ?es \<longrightarrow> val_ok (length h) v"
    by (auto simp: val_ok_def split: option.splits)
  then have "cell_ok (length h + 1) (Arr ?es [])"
    unfolding cell_ok_Arr using val_ok_mono [of "length h" _ "length h + 1"] by simp
  then have "cell_ok (length h + 1) (arr_assign (key_of bk (parseInt lastKey)) v ?es [])"
    using v by (intro arr_assign_ok) (auto intro: val_ok_mono)
  with finish_array [OF c, of bk lastKey v] cur' show ?thesis by blast
next
  case False
  from finish_object [OF wf cur v False, of bk lastKey] obtain ps where
    pok: "list_all (val_ok (length h)) (map snd ps)"
    and f: "finish bk lastKey current v h =
               Inr (VRef (length h), h @ [Obj (assigned_props lastKey v ps) (assigned_proto lastKey v ps)])"
    by blast
  have "cell_ok (length h + 1) (Obj ps objproto)"
    using pok val_ok_mono [of "length h" _ "length h + 1"]
    by (auto simp: cell_ok_Obj list_all_iff objproto_def val_ok_def split: val.splits)
  then have "cell_ok (length h + 1) (Obj (assigned_props lastKey v ps) (assigned_proto lastKey v ps))"
    using v by (intro assigned_ok) (auto intro: val_ok_mono)
  with f show ?thesis by blast
qed

lemma updateNested_ok:
  assumes wf: "wf_heap h" and obj: "val_ok (length h) obj" and v: "val_ok (length h) v"
  shows "\<exists>r ext. updateNested bk obj p v h = Inr (r, h @ ext) \<and> wf_heap (h @ ext)
           \<and> val_ok (length (h @ ext)) r"
proof (cases "typeof obj \<noteq> ''object'' \<or> obj = VNull")
  case True
  then have "updateNested bk obj p v h = Inr (v, h @ [])" by (simp add: updateNested_def)
  with wf v show ?thesis by (intro exI [of _ v] exI [of _ "[]"]) simp
next
  case False
  from walk_ok [OF wf obj, of bk "butlast (split_path p)"] obtain cur ext where
    w: "walk bk (butlast (split_path p)) obj h = Inr (cur, h @ ext)"
    and wf1: "wf_heap (h @ ext)" and c1: "val_ok (length (h @ ext)) cur"
    by blast
  have v1: "val_ok (length (h @ ext)) v" using v by (auto intro: val_ok_mono)
  from finish_ok [OF wf1 c1 v1, of bk "strip_bracket (last (split_path p))"] obtain c where
    f: "finish bk (strip_bracket (last (split_path p))) cur v (h @ ext) =
          Inr (VRef (length (h @ ext)), (h @ ext) @ [c])"
    and ok: "cell_ok (length (h @ ext) + 1) c"
    by blast
  have res: "updateNested bk obj p v h = Inr (VRef (length (h @ ext)), h @ (ext @ [c]))"
    using False w f by (simp add: updateNested_def bindE_def Let_def)
  have "wf_heap ((h @ ext) @ [c])" using wf_heap_append [of "h @ ext" "[c]"] wf1 ok by simp
  with res show ?thesis
    by (intro exI [of _ "VRef (length (h @ ext))"] exI [of _ "ext @ [c]"]) (simp add: val_ok_def)
qed

text \<open>Cells appended to a well-formed store do not change the tree of a value in it.\<close>

lemma reify_append:
  assumes wf: "wf_heap h"
  shows "val_ok (length h) u \<Longrightarrow> reify n (h @ ext) u = reify n h u"
proof (induction n arbitrary: u)
  case 0
  show ?case by simp
next
  case (Suc n)
  show ?case
  proof (cases u)
    case (VRef a)
    with Suc.prems have a: "a < length h" by (simp add: val_ok_def)
    then have ca: "cell_at (h @ ext) a = Some (h ! a)" and cb: "cell_at h a = Some (h ! a)"
      by (simp_all add: cell_at_def nth_append)
    from wf_heap_cell [OF wf cb] have ok: "cell_ok (length h) (h ! a)" .
    show ?thesis
    proof (cases "h ! a")
      case (Arr es ps)
      with ok have e: "\<forall>v. Some v \<in> set es \<longrightarrow> val_ok (length h) v"
        and p: "\<forall>v \<in> snd ` set ps. val_ok (length h) v"
        by (simp_all add: cell_ok_Arr)
      have m1: "map (\<lambda>e. case e of None \<Rightarrow> Some None | Some x \<Rightarrow> map_option Some (reify n (h @ ext) x)) es
              = map (\<lambda>e. case e of None \<Rightarrow> Some None | Some x \<Rightarrow> map_option Some (reify n h x)) es"
        using e Suc.IH by (intro map_cong) (auto split: option.splits)
      have m2: "map (\<lambda>(k, x). map_option (Pair k) (reify n (h @ ext) x)) ps
              = map (\<lambda>(k, x). map_option (Pair k) (reify n h x)) ps"
        using p Suc.IH by (intro map_cong) auto
      show ?thesis by (simp add: VRef ca cb Arr m1 m2 cong: option.case_cong)
    next
      case (Obj ps pr)
      with ok have p: "\<forall>v \<in> snd ` set ps. val_ok (length h) v"
        by (simp add: cell_ok_Obj)
      have m2: "map (\<lambda>(k, x). map_option (Pair k) (reify n (h @ ext) x)) ps
              = map (\<lambda>(k, x). map_option (Pair k) (reify n h x)) ps"
        using p Suc.IH by (intro map_cong) auto
      show ?thesis by (simp add: VRef ca cb Obj m2)
    qed
  qed simp_all
qed

text \<open>
  Well-formedness is an invariant of the edit loop: it holds of the initial state, and
  \<^verbatim>\<open>handleFormChange\<close> returns, without an exception, a state that is well formed
  again. The values that the handlers of the fields pass on are scalars.
\<close>

lemma initial_state_wf: "wf_state initial_state"
  by (simp add: wf_state_def initial_state_def wf_heap_def val_ok_def)

lemma edit_delivers_scalar: "edit pf el e = Some (newValue, path) \<Longrightarrow> is_scalar newValue"
  by (cases el) (auto simp: is_scalar_def)

lemma scalar_val_ok: "is_scalar v \<Longrightarrow> val_ok n v"
  by (cases v) (simp_all add: is_scalar_def val_ok_def)

lemma handleFormChange_keeps_wf:
  assumes "wf_state st" "val_ok (length (store st)) newValue"
  shows "\<exists>st'. handleFormChange bk newValue path st = Inr st' \<and> wf_state st'"
proof (cases "truthy (formData st)")
  case False
  with assms(1) show ?thesis by (simp add: handleFormChange_def)
next
  case True
  from assms have wf: "wf_heap (store st)" and ok: "val_ok (length (store st)) (formData st)"
    by (simp_all add: wf_state_def)
  from updateNested_ok [OF wf ok assms(2), of bk path] obtain r ext where
    u: "updateNested bk (formData st) path newValue (store st) = Inr (r, store st @ ext)"
    and wf': "wf_heap (store st @ ext)" and r: "val_ok (length (store st @ ext)) r"
    by blast
  have "handleFormChange bk newValue path st = Inr (st\<lparr>formData := r, store := store st @ ext\<rparr>)"
    using True u by (simp add: handleFormChange_def bindE_def)
  moreover have "wf_state (st\<lparr>formData := r, store := store st @ ext\<rparr>)"
    using wf' r by (simp add: wf_state_def)
  ultimately show ?thesis by blast
qed


subsection \<open>The tree that is passed in\<close>

text \<open>
  Claim C4. On a well-formed store \<^verbatim>\<open>updateNested\<close> returns, for every tree, path
  and new value, and the store it leaves is the store it found followed by new cells:
  no cell that existed before the call is written. So the tree that was passed in
  unfolds, to every depth, to what it unfolded to before the call.
\<close>

theorem update_never_writes_into_the_tree:
  assumes "wf_heap h" "val_ok (length h) obj" "val_ok (length h) x"
  shows "\<exists>r h'. updateNested bk obj p x h = Inr (r, h')
           \<and> take (length h) h' = h
           \<and> (\<forall>n. reify n h' obj = reify n h obj)"
proof -
  from updateNested_ok [OF assms, of bk p] obtain r ext where
    "updateNested bk obj p x h = Inr (r, h @ ext)" by blast
  moreover have "\<forall>n. reify n (h @ ext) obj = reify n h obj"
    using reify_append [OF assms(1) assms(2)] by simp
  ultimately show ?thesis by (intro exI [of _ r] exI [of _ "h @ ext"]) simp
qed

lemma two_keys_wf: "wf_heap two_keys"
  by (simp add: wf_heap_def two_keys_def cell_ok_def cell_vals_def val_ok_def objproto_def)

theorem update_never_writes_into_the_tree_witness:
  "wf_heap two_keys \<and> val_ok (length two_keys) (VRef 0) \<and> val_ok (length two_keys) (VNum (Fin 5))
   \<and> (\<exists>r h'. updateNested plain_digits (VRef 0) ''root.a'' (VNum (Fin 5)) two_keys = Inr (r, h')
         \<and> take (length two_keys) h' = two_keys
         \<and> (\<forall>n. reify n h' (VRef 0) = reify n two_keys (VRef 0)))"
proof -
  have a: "val_ok (length two_keys) (VRef 0)" and b: "val_ok (length two_keys) (VNum (Fin 5))"
    by (simp_all add: val_ok_def two_keys_def)
  show ?thesis
    using two_keys_wf a b
      update_never_writes_into_the_tree [OF two_keys_wf a b, of plain_digits "''root.a''"]
    by blast
qed

lemmas eval_defs =
  updateNested_def typeof_def finish_def step_def bindE_def isArray_def cell_at_def
  spread_obj_def spread_arr_def own_enumerable_def get_str_def set_str_def get_num_def set_num_def
  arr_assign_def strip_bracket_def objproto_def objproto_methods_def insert_prop_def index_of_def
  is_digit_def digit_val_def key_of_def parseInt_def is_ws_def digits_value_def update_own_def
  index_props_def plain_link_def Let_def

subsection \<open>A path that addresses a missing slot\<close>

text \<open>
  The value that the loop ends in, the final container of the write, is a plain
  object as soon as the loop has run once: each round continues in an object spread.
\<close>

lemma walk_ends_in_plain_object:
  assumes "wf_heap h" "val_ok (length h) obj" "ts \<noteq> []"
      and "walk bk ts obj h = Inr (current, h1)"
  shows "\<not> isArray h1 current"
  using walk_ok [OF assms(1) assms(2), of bk ts] assms(3) assms(4) by auto

text \<open>
  Claim C6 does not hold of the code. The path \<^verbatim>\<open>root[5]\<close>, which the renderer
  gives the sixth element of an array, addresses in the tree \<^verbatim>\<open>[7, 8]\<close> an index
  past the end. With this path and the new value \<open>5\<close>, \<^verbatim>\<open>updateNested\<close> raises
  nothing, but it takes \<^verbatim>\<open>root\<close> for a key of the array, continues in a new empty
  object and returns the object \<^verbatim>\<open>{"5": 5}\<close>: the array is not extended, and its
  elements \<open>7\<close> and \<open>8\<close> are not in the result.
\<close>

theorem stale_index_path_returns_a_mapping:
  "cell_at pair_array 0 = Some (Arr [Some (VNum (Fin 7)), Some (VNum (Fin 8))] [])
   \<and> split_path ''root[5]'' = [''root'', ''5]'']
   \<and> key_of plain_digits (parseInt (strip_bracket ''5]'')) = Index 5
   \<and> updateNested plain_digits (VRef 0) ''root[5]'' (VNum (Fin 5)) pair_array =
       Inr (VRef 3,
            pair_array @
            [Arr [Some (VNum (Fin 7)), Some (VNum (Fin 8))] [(''NaN'', VRef 2)],
             Obj [] objproto,
             Obj [(''5'', VNum (Fin 5))] objproto])
   \<and> \<not> isArray (pair_array @
            [Arr [Some (VNum (Fin 7)), Some (VNum (Fin 8))] [(''NaN'', VRef 2)],
             Obj [] objproto,
             Obj [(''5'', VNum (Fin 5))] objproto]) (VRef 3)
   \<and> reify 2 (pair_array @
            [Arr [Some (VNum (Fin 7)), Some (VNum (Fin 8))] [(''NaN'', VRef 2)],
             Obj [] objproto,
             Obj [(''5'', VNum (Fin 5))] objproto]) (VRef 3)
       = Some (TObj [(''5'', TNum (Fin 5))])"
proof -
  have key: "key_of plain_digits (parseInt (strip_bracket ''5]'')) = Index 5"
    by (simp add: eval_defs)
  have upd: "updateNested plain_digits (VRef 0) ''root[5]'' (VNum (Fin 5)) pair_array =
       Inr (VRef 3,
            pair_array @
            [Arr [Some (VNum (Fin 7)), Some (VNum (Fin 8))] [(''NaN'', VRef 2)],
             Obj [] objproto,
             Obj [(''5'', VNum (Fin 5))] objproto])"
    by (simp add: pair_array_def eval_defs)
  have tree: "reify 2 (pair_array @
            [Arr [Some (VNum (Fin 7)), Some (VNum (Fin 8))] [(''NaN'', VRef 2)],
             Obj [] objproto,
             Obj [(''5'', VNum (Fin 5))] objproto]) (VRef 3)
       = Some (TObj [(''5'', TNum (Fin 5))])"
    by (simp add: pair_array_def cell_at_def numeral_2_eq_2)
  show ?thesis
    using key upd tree by (simp add: pair_array_def cell_at_def isArray_def)
qed

text \<open>
  What the result says about the claim: the tree returned for \<^verbatim>\<open>[7, 8]\<close> is not an
  array, and not the array \<^verbatim>\<open>[7, 8, , , , 5]\<close> that an assignment past the end
  makes.
\<close>

theorem stale_index_path_returns_a_mapping_witness:
  "\<exists>r h'. updateNested plain_digits (VRef 0) ''root[5]'' (VNum (Fin 5)) pair_array = Inr (r, h')
      \<and> \<not> isArray h' r
      \<and> reify 2 h' r \<noteq>
          Some (TArr [Some (TNum (Fin 7)), Some (TNum (Fin 8)), None, None, None, Some (TNum (Fin 5))] [])"
  using stale_index_path_returns_a_mapping by simp

subsection \<open>The result of an update through a path of the renderer\<close>

text \<open>
  Every path that \<^verbatim>\<open>RenderForm\<close> gives a node below the root is \<^verbatim>\<open>root\<close>, then a
  dot or an opening bracket, then the rest. \<^verbatim>\<open>updateNested\<close> takes the piece
  \<^verbatim>\<open>root\<close> for a key: on an array, and on an object that has no key \<^verbatim>\<open>root\<close>,
  the first round of the loop continues in a new empty object, every later round does
  so again, and the result is a new object with one key, the last piece of the path,
  whatever the tree holds.
\<close>

lemma step_from_empty:
  assumes wf: "wf_heap h" and cur: "cell_at h b = Some (Obj [] objproto)"
  shows "\<exists>c1. step bk t (VRef b) h = Inr (VRef (Suc (length h)), h @ [c1, Obj [] objproto])
           \<and> cell_ok (length h + 2) c1"
proof -
  let ?key = "strip_bracket t"
  have na: "\<not> isArray h (VRef b)" using cur by (simp add: isArray_def)
  have sp: "spread_obj h (VRef b) = Inr (VRef (length h), h @ [Obj [] objproto])"
    using cur by (simp add: spread_obj_def own_enumerable_def bindE_def)
  let ?h1 = "h @ [Obj [] objproto]"
  let ?old = "if ?key = ''__proto__'' then objproto
              else if ?key \<in> set objproto_methods then VNative ?key else VUndef"
  have g: "get_str ?h1 (VRef (length h)) ?key = Inr ?old"
    by (simp add: get_str_def)
  have so: "spread_obj ?h1 ?old = Inr (VRef (Suc (length h)), ?h1 @ [Obj [] objproto])"
    by (simp add: spread_obj_def own_enumerable_def bindE_def objproto_def)
  let ?h2 = "h @ [Obj [] objproto, Obj [] objproto]"
  let ?x = "VRef (Suc (length h))"
  let ?c = "Obj (assigned_props ?key ?x []) (assigned_proto ?key ?x [])"
  let ?h3 = "h @ [?c, Obj [] objproto]"
  have nc: "\<not> chain_reaches (length ?h2) ?h2 ?x (length h)"
    by (simp add: objproto_def)
  have ss: "set_str ?h2 (VRef (length h)) ?key ?x = Inr ?h3"
    using set_str_fresh [of ?h2 "length h" "[]" ?x ?key] nc
    by (simp add: list_update_append)
  have gs: "get_str ?h3 (VRef (length h)) ?key = Inr ?x"
    by (rule get_str_assigned [of _ _ _ _ "[]" "[]"]) simp_all
  have st: "step bk t (VRef b) h = Inr (?x, ?h3)"
    using na sp g so ss gs by (simp add: step_def bindE_def Let_def)
  have "cell_ok (length h + 2) (Obj [] objproto)"
    by (simp add: cell_ok_Obj objproto_def val_ok_def)
  then have okc: "cell_ok (length h + 2) ?c"
    by (intro assigned_ok) (simp_all add: val_ok_def)
  from st okc show ?thesis by blast
qed

lemma walk_from_empty:
  assumes "wf_heap h" "cell_at h b = Some (Obj [] objproto)"
  shows "\<exists>b' ext. walk bk ts (VRef b) h = Inr (VRef b', h @ ext) \<and> wf_heap (h @ ext)
           \<and> cell_at (h @ ext) b' = Some (Obj [] objproto)"
  using assms
proof (induction ts arbitrary: b h)
  case Nil
  then show ?case by (intro exI [of _ b] exI [of _ "[]"]) simp
next
  case (Cons t ts)
  from step_from_empty [OF Cons.prems, of bk t] obtain c1 where
    st: "step bk t (VRef b) h = Inr (VRef (Suc (length h)), h @ [c1, Obj [] objproto])"
    and ok: "cell_ok (length h + 2) c1"
    by blast
  let ?h = "h @ [c1, Obj [] objproto]"
  have "cell_ok (length h + 2) (Obj [] objproto)"
    by (simp add: cell_ok_Obj objproto_def val_ok_def)
  with Cons.prems(1) ok have wf': "wf_heap ?h" by (intro wf_heap_append) simp_all
  have c': "cell_at ?h (Suc (length h)) = Some (Obj [] objproto)" by simp
  from Cons.IH [OF wf' c'] obtain b' ext where
    w: "walk bk ts (VRef (Suc (length h))) ?h = Inr (VRef b', ?h @ ext)"
    and wfe: "wf_heap (?h @ ext)" and cb: "cell_at (?h @ ext) b' = Some (Obj [] objproto)"
    by blast
  show ?case using st w wfe cb
    by (intro exI [of _ b'] exI [of _ "[c1, Obj [] objproto] @ ext"]) (simp add: bindE_def)
qed

lemma first_step_on_root:
  assumes wf: "wf_heap h" and obj: "val_ok (length h) obj"
      and noroot: "isArray h obj \<or> (\<exists>ps. own_enumerable h obj = Inr ps \<and> map_of ps ''root'' = None)"
  shows "\<exists>c1. step bk ''root'' obj h = Inr (VRef (Suc (length h)), h @ [c1, Obj [] objproto])
           \<and> cell_ok (length h + 2) c1"
proof (cases "isArray h obj")
  case True
  then obtain a es0 ps0 where o: "obj = VRef a" and arr: "cell_at h a = Some (Arr es0 ps0)"
    by (auto simp: isArray_def split: val.splits option.splits cell.splits)
  let ?k = "Named ''NaN''"
  have k: "key_of bk (parseInt (strip_bracket ''root'')) = ?k"
    by (simp add: key_of_def parseInt_def strip_bracket_def is_ws_def is_digit_def digit_val_def)
  let ?es = "map (\<lambda>e. Some (case e of None \<Rightarrow> VUndef | Some x \<Rightarrow> x)) es0"
  let ?h1 = "h @ [Arr ?es []]"
  have sp: "spread_arr h (VRef a) = Inr (VRef (length h), ?h1)"
    using arr by (simp add: spread_arr_def)
  have g: "get_num ?h1 (VRef (length h)) ?k = Inr VUndef"
    by (simp add: get_num_def)
  have so: "spread_obj ?h1 VUndef = Inr (VRef (Suc (length h)), ?h1 @ [Obj [] objproto])"
    by (simp add: spread_obj_def own_enumerable_def bindE_def)
  let ?h2 = "h @ [Arr ?es [], Obj [] objproto]"
  let ?c = "arr_assign ?k (VRef (Suc (length h))) ?es []"
  let ?h3 = "h @ [?c, Obj [] objproto]"
  have sn: "set_num ?h2 (VRef (length h)) ?k (VRef (Suc (length h))) = Inr ?h3"
    using set_num_at [of ?h2 "length h" ?es "[]" ?k "VRef (Suc (length h))"]
    by (simp add: list_update_append)
  have gn: "get_num ?h3 (VRef (length h)) ?k = Inr (VRef (Suc (length h)))"
    by (rule get_num_arr_assign [of _ _ _ _ ?es "[]"]) simp
  have st: "step bk ''root'' obj h = Inr (VRef (Suc (length h)), ?h3)"
    using True o sp g so sn gn k by (simp add: step_def bindE_def Let_def)
  from wf_heap_cell [OF wf arr] have "\<forall>v. Some v \<in> set es0 \<longrightarrow> val_ok (length h) v"
    by (simp add: cell_ok_Arr)
  then have "\<forall>v. Some v \<in> set ?es \<longrightarrow> val_ok (length h) v"
    by (auto simp: val_ok_def split: option.splits)
  then have "cell_ok (length h + 2) (Arr ?es [])"
    unfolding cell_ok_Arr using val_ok_mono [of "length h" _ "length h + 2"] by simp
  then have "cell_ok (length h + 2) ?c"
    by (intro arr_assign_ok) (simp_all add: val_ok_def)
  with st show ?thesis by blast
next
  case False
  with noroot obtain ps where oe: "own_enumerable h obj = Inr ps" and nr: "map_of ps ''root'' = None"
    by blast
  from spread_obj_ok [OF wf obj] oe have
    sp: "spread_obj h obj = Inr (VRef (length h), h @ [Obj ps objproto])"
    and pok: "list_all (val_ok (length h)) (map snd ps)"
    by auto
  let ?h1 = "h @ [Obj ps objproto]"
  have key: "strip_bracket ''root'' = ''root''" by (simp add: strip_bracket_def)
  have g: "get_str ?h1 (VRef (length h)) ''root'' = Inr VUndef"
    using nr by (simp add: get_str_def objproto_methods_def)
  have so: "spread_obj ?h1 VUndef = Inr (VRef (Suc (length h)), ?h1 @ [Obj [] objproto])"
    by (simp add: spread_obj_def own_enumerable_def bindE_def)
  let ?h2 = "h @ [Obj ps objproto, Obj [] objproto]"
  let ?x = "VRef (Suc (length h))"
  let ?c = "Obj (assigned_props ''root'' ?x ps) (assigned_proto ''root'' ?x ps)"
  let ?h3 = "h @ [?c, Obj [] objproto]"
  have nc: "\<not> chain_reaches (length ?h2) ?h2 ?x (length h)"
    by (simp add: objproto_def)
  have ss: "set_str ?h2 (VRef (length h)) ''root'' ?x = Inr ?h3"
    using set_str_fresh [of ?h2 "length h" ps ?x "''root''"] nc
    by (simp add: list_update_append)
  have gs: "get_str ?h3 (VRef (length h)) ''root'' = Inr ?x"
    by (rule get_str_assigned [of _ _ _ _ ps "[]"]) simp_all
  have st: "step bk ''root'' obj h = Inr (?x, ?h3)"
    using False sp g so ss gs key by (simp add: step_def bindE_def Let_def)
  have "cell_ok (length h + 2) (Obj ps objproto)"
    using pok val_ok_mono [of "length h" _ "length h + 2"]
    by (auto simp: cell_ok_Obj list_all_iff objproto_def val_ok_def split: val.splits)
  then have "cell_ok (length h + 2) ?c"
    by (intro assigned_ok) (simp_all add: val_ok_def)
  with st show ?thesis by blast
qed

lemma update_through_root_piece:
  assumes wf: "wf_heap h" and obj: "val_ok (length h) obj" and x: "val_ok (length h) x"
      and root: "typeof obj = ''object''" "obj \<noteq> VNull"
      and noroot: "isArray h obj \<or> (\<exists>ps. own_enumerable h obj = Inr ps \<and> map_of ps ''root'' = None)"
      and path: "split_path p = ''root'' # ts @ [t]"
      and key: "strip_bracket t \<noteq> ''__proto__''"
  shows "\<exists>ext. updateNested bk obj p x h =
               Inr (VRef (length (h @ ext)), (h @ ext) @ [Obj [(strip_bracket t, x)] objproto])"
proof -
  let ?k = "strip_bracket t"
  from first_step_on_root [OF wf obj noroot, of bk] obtain c1 where
    st: "step bk ''root'' obj h = Inr (VRef (Suc (length h)), h @ [c1, Obj [] objproto])"
    and ok: "cell_ok (length h + 2) c1"
    by blast
  let ?h = "h @ [c1, Obj [] objproto]"
  have "cell_ok (length h + 2) (Obj [] objproto)"
    by (simp add: cell_ok_Obj objproto_def val_ok_def)
  with wf ok have wf': "wf_heap ?h" by (intro wf_heap_append) simp_all
  have c': "cell_at ?h (Suc (length h)) = Some (Obj [] objproto)" by simp
  from walk_from_empty [OF wf' c', of bk ts] obtain b' ext where
    w: "walk bk ts (VRef (Suc (length h))) ?h = Inr (VRef b', ?h @ ext)"
    and wfe: "wf_heap (?h @ ext)" and cb: "cell_at (?h @ ext) b' = Some (Obj [] objproto)"
    by blast
  let ?h1 = "?h @ ext"
  have bl: "butlast (split_path p) = ''root'' # ts" and la: "last (split_path p) = t"
    using path by (simp_all add: butlast_append)
  have wk: "walk bk (butlast (split_path p)) obj h = Inr (VRef b', ?h1)"
    using st w by (simp add: bl bindE_def)
  have vb: "val_ok (length ?h1) (VRef b')"
    using cb by (auto simp: val_ok_def cell_at_def split: if_splits)
  have vx: "val_ok (length ?h1) x" using x by (auto intro: val_ok_mono)
  have na: "\<not> isArray ?h1 (VRef b')" using cb by (simp add: isArray_def)
  have oe: "own_enumerable ?h1 (VRef b') = Inr []" using cb by (simp add: own_enumerable_def)
  from finish_object [OF wfe vb vx na, of bk ?k] oe
  have f: "finish bk ?k (VRef b') x ?h1 =
             Inr (VRef (length ?h1), ?h1 @ [Obj (assigned_props ?k x []) (assigned_proto ?k x [])])"
    by auto
  have ap: "assigned_props ?k x [] = [(?k, x)]"
    using key by (simp add: assigned_props_def insert_prop_def split: option.splits)
  have apr: "assigned_proto ?k x [] = objproto" using key by (simp add: assigned_proto_def)
  have "updateNested bk obj p x h = Inr (VRef (length ?h1), ?h1 @ [Obj [(?k, x)] objproto])"
    using root wk f ap apr la by (simp add: updateNested_def bindE_def Let_def)
  then show ?thesis
    by (intro exI [of _ "[c1, Obj [] objproto] @ ext"]) simp
qed


lemma split_path_nonempty: "split_path s \<noteq> []"
  by (induction s) (auto split: list.splits)

lemma split_path_root:
  assumes "c = CHR ''.'' \<or> c = CHR ''[''"
  shows "split_path (''root'' @ c # rest) = ''root'' # split_path rest"
  using assms split_path_nonempty [of rest] by (auto split: list.splits)

lemma update_below_root_returns_one_key:
  assumes wf: "wf_heap h" and obj: "val_ok (length h) obj" and x: "val_ok (length h) x"
      and root: "typeof obj = ''object''" "obj \<noteq> VNull"
      and noroot: "isArray h obj \<or> (\<exists>ps. own_enumerable h obj = Inr ps \<and> map_of ps ''root'' = None)"
      and sep: "c = CHR ''.'' \<or> c = CHR ''[''"
      and key: "strip_bracket (last (split_path rest)) \<noteq> ''__proto__''"
  shows "\<exists>ext. updateNested bk obj (''root'' @ c # rest) x h =
               Inr (VRef (length (h @ ext)),
                    (h @ ext) @ [Obj [(strip_bracket (last (split_path rest)), x)] objproto])"
proof -
  have ne: "split_path rest \<noteq> []" by (rule split_path_nonempty)
  then have "split_path rest = butlast (split_path rest) @ [last (split_path rest)]" by simp
  then have path: "split_path (''root'' @ c # rest) =
                     ''root'' # butlast (split_path rest) @ [last (split_path rest)]"
    using split_path_root [OF sep, of rest] by simp
  from update_through_root_piece [OF wf obj x root noroot path key] show ?thesis .
qed


text \<open>
  Claim C1 does not hold of the code. In the tree \<^verbatim>\<open>{"a": 1, "b": 2}\<close> the renderer
  gives the leaf \<open>1\<close> the path \<^verbatim>\<open>root.a\<close>. With this path and the new value \<open>5\<close>,
  \<^verbatim>\<open>updateNested\<close> takes \<^verbatim>\<open>root\<close> for a key of the tree, continues in a new
  empty object and returns \<^verbatim>\<open>{"a": 5}\<close>: the sibling \<^verbatim>\<open>b\<close> is not in the
  result, and the copy of the root, at address 1, is not what is returned.
\<close>

theorem update_at_renderer_path_drops_siblings:
  "(''a'', VNum (Fin 1), ''root.a'') \<in> set (accordion_items two_keys (VRef 0) ''root'')
   \<and> updateNested plain_digits (VRef 0) ''root.a'' (VNum (Fin 5)) two_keys =
       Inr (VRef 3,
            two_keys @
            [Obj [(''a'', VNum (Fin 1)), (''b'', VNum (Fin 2)), (''root'', VRef 2)] objproto,
             Obj [] objproto,
             Obj [(''a'', VNum (Fin 5))] objproto])
   \<and> reify 2 (two_keys @
            [Obj [(''a'', VNum (Fin 1)), (''b'', VNum (Fin 2)), (''root'', VRef 2)] objproto,
             Obj [] objproto,
             Obj [(''a'', VNum (Fin 5))] objproto]) (VRef 3)
       = Some (TObj [(''a'', TNum (Fin 5))])"
  by (simp add: accordion_items_def two_keys_def eval_defs numeral_2_eq_2)

text \<open>
  Claim C2 does not hold of the code. In the tree \<^verbatim>\<open>[7, 8]\<close> the renderer gives the
  element \<open>7\<close> the path \<^verbatim>\<open>root[0]\<close>. Writing \<open>7\<close> back at this path returns the
  object \<^verbatim>\<open>{"0": 7}\<close>, which is not the array \<^verbatim>\<open>[7, 8]\<close>.
\<close>

theorem writing_back_the_same_leaf_changes_the_tree:
  "(0, VNum (Fin 7), ''root[0]'') \<in> set (list_items pair_array (VRef 0) ''root'')
   \<and> updateNested plain_digits (VRef 0) ''root[0]'' (VNum (Fin 7)) pair_array =
       Inr (VRef 3,
            pair_array @
            [Arr [Some (VNum (Fin 7)), Some (VNum (Fin 8))] [(''NaN'', VRef 2)],
             Obj [] objproto,
             Obj [(''0'', VNum (Fin 7))] objproto])
   \<and> reify 2 (pair_array @
            [Arr [Some (VNum (Fin 7)), Some (VNum (Fin 8))] [(''NaN'', VRef 2)],
             Obj [] objproto,
             Obj [(''0'', VNum (Fin 7))] objproto]) (VRef 3)
       = Some (TObj [(''0'', TNum (Fin 7))])
   \<and> reify 2 pair_array (VRef 0) = Some (TArr [Some (TNum (Fin 7)), Some (TNum (Fin 8))] [])"
  by (simp add: list_items_def pair_array_def eval_defs dec_small numeral_2_eq_2)

text \<open>
  What the two results say about the claims: the tree returned for \<^verbatim>\<open>{"a": 1, "b": 2}\<close>
  is not \<^verbatim>\<open>{"a": 5, "b": 2}\<close>, and the tree returned for \<^verbatim>\<open>[7, 8]\<close> is not
  the tree that was passed in.
\<close>

theorem update_at_renderer_path_drops_siblings_witness:
  "\<exists>r h'. updateNested plain_digits (VRef 0) ''root.a'' (VNum (Fin 5)) two_keys = Inr (r, h')
      \<and> reify 2 h' r = Some (TObj [(''a'', TNum (Fin 5))])
      \<and> reify 2 h' r \<noteq> Some (TObj [(''a'', TNum (Fin 5)), (''b'', TNum (Fin 2))])"
  using update_at_renderer_path_drops_siblings by simp

theorem writing_back_the_same_leaf_changes_the_tree_witness:
  "\<exists>r h'. updateNested plain_digits (VRef 0) ''root[0]'' (VNum (Fin 7)) pair_array = Inr (r, h')
      \<and> reify 2 h' r \<noteq> reify 2 pair_array (VRef 0)
      \<and> reify 2 h' (VRef 0) = reify 2 pair_array (VRef 0)"
  using writing_back_the_same_leaf_changes_the_tree
  by (simp add: pair_array_def cell_at_def numeral_2_eq_2)

end
